theory Spec2Isabelle
  imports Complex_Main "HOL-Library.AList" "HOL-Library.Multiset"
begin

section \<open>Data model of cbpatch\<close>

text \<open>
  Errors are values. The constructors cover the \<open>fmt.Errorf\<close> messages of the package, the
  sentinel \<open>storage.ErrObjectNotExist\<close>, the error of an operation on a nil or closed
  \<open>*os.File\<close>, the two \<open>strconv\<close> errors, and errors that come from the collaborators
  (storage backend, row validator, zlib reader). \<open>Wrapped\<close> is an error that wraps another one
  (\<open>fmt.Errorf("...%w", e)\<close>), which \<open>errors.Is\<close> looks through.
\<close>

datatype error =
    ErrObjectNotExist
  | ErrInvalidFile
  | ErrSyntax string
  | ErrRange string
  | InvalidZippedChecksum string
  | InvalidUnzippedChecksum string
  | RowTooShort string
  | CategoriesRowNot4 string
  | ZlibError string
  | ValidationError string
  | StorageError string
  | OpenError string
  | Wrapped string error

fun errors_Is_ErrObjectNotExist :: "error \<Rightarrow> bool" where
  "errors_Is_ErrObjectNotExist ErrObjectNotExist = True"
| "errors_Is_ErrObjectNotExist (Wrapped msg e) = errors_Is_ErrObjectNotExist e"
| "errors_Is_ErrObjectNotExist _ = False"

text \<open>\<open>DefaultPatch\<close> with its three getters.\<close>

record Patch =
  Action :: string
  Key :: string
  Values :: "string list"

definition GetAction :: "Patch \<Rightarrow> string" where
  "GetAction d = Action d"

definition GetKey :: "Patch \<Rightarrow> string" where
  "GetKey d = Key d"

definition GetValues :: "Patch \<Rightarrow> string list" where
  "GetValues d = Values d"

text \<open>
  A local file handle (\<open>*os.File\<close>): \<open>None\<close> is a nil or closed handle, on which every
  operation returns an error; \<open>Some bs\<close> is an open file whose content is the bytes \<open>bs\<close>.
  The code sets the file position explicitly (\<open>Seek\<close>) before every read and write, so the
  position is not part of the state.
\<close>

type_synonym os_file = "string option"

record Bucket =
  StorageBucketName :: string
  RelativeFilePath :: string
  RemoteFilePath :: string
  Dir :: string
  Number :: int
  FileName :: string
  File :: os_file
  ZippedFileName :: string
  ZippedFile :: os_file
  IsChanged :: bool
  IsDeleted :: bool
  ZippedHash :: string
  UnzippedHash :: string
  PatchCount :: int
  Patches :: "Patch list"

text \<open>The classification item interface, as the values its seven getters return.\<close>

record CategoriesItem =
  GetId :: int
  GetCategory :: string
  GetSubcategory :: string
  GetIdentifier :: string
  GetDescription :: string
  GetTlc :: string
  GetSlc :: string

text \<open>
  Field names are global in a theory, so the fields of \<open>Categories\<close> carry the prefix \<open>c\<close>
  and those of \<open>Master\<close> the prefix \<open>m\<close>. The collaborators held in the structs (error
  handler, logger, storage, validation callback) are parameters of the functions that use them;
  logging and error reporting change nothing the functions return.
\<close>

record Categories =
  cStorageBucketName :: string
  cRelativeFilePath :: string
  cRemoteFilePath :: string
  cDir :: string
  cFileName :: string
  cFile :: os_file
  cZippedFileName :: string
  cZippedFile :: os_file
  cZippedHash :: string
  cUnzippedHash :: string
  cCategoryItems :: "CategoriesItem list"

record Master =
  mStorageBucketName :: string
  mRemoteDir :: string
  mDir :: string
  mFileName :: string
  mPublic :: bool
  mFile :: os_file
  mCategories :: "Categories option"
  mCategoryItems :: "CategoriesItem list"
  mIsChanged :: bool
  mVersion :: string
  mUnixTime :: int
  mDateTime :: string
  Buckets :: "Bucket list"

section \<open>Replay: \<open>Master.CompileList\<close>\<close>

text \<open>
  The body of the \<open>switch\<close> of \<open>CompileList\<close>: one patch applied to the accumulating map.
  A Go \<open>break\<close> inside a \<open>switch\<close> leaves the switch only; an action other than the three
  tags matches no case and leaves the map as it is.
\<close>

definition apply_patch :: "(string \<rightharpoonup> string list) \<Rightarrow> Patch \<Rightarrow> (string \<rightharpoonup> string list)" where
  "apply_patch list patch =
     (if GetAction patch = ''+'' then list(GetKey patch \<mapsto> GetValues patch)
      else if GetAction patch = ''-'' then list(GetKey patch := None)
      else if GetAction patch = ''*'' then Map.empty
      else list)"

text \<open>The inner loop \<open>for _, patch := range bucket.Patches\<close>.\<close>

fun compile_patches :: "(string \<rightharpoonup> string list) \<Rightarrow> Patch list \<Rightarrow> (string \<rightharpoonup> string list)" where
  "compile_patches list [] = list"
| "compile_patches list (patch # rest) = compile_patches (apply_patch list patch) rest"

text \<open>
  The outer loop \<open>for _, bucket := range m.Buckets\<close>, with the counter \<open>totalPatches\<close>
  that the function only logs.
\<close>

fun compile_buckets ::
  "nat \<times> (string \<rightharpoonup> string list) \<Rightarrow> Bucket list \<Rightarrow> nat \<times> (string \<rightharpoonup> string list)" where
  "compile_buckets (totalPatches, list) [] = (totalPatches, list)"
| "compile_buckets (totalPatches, list) (bucket # rest) =
     (if IsDeleted bucket then compile_buckets (totalPatches, list) rest
      else compile_buckets
             (totalPatches + length (Patches bucket), compile_patches list (Patches bucket)) rest)"

text \<open>
  \<open>CompileList\<close> returns the map together with its error result, which is always nil.
\<close>

definition CompileList :: "Master \<Rightarrow> (string \<rightharpoonup> string list) \<times> error option" where
  "CompileList m = (snd (compile_buckets (0, Map.empty) (Buckets m)), None)"

text \<open>Concrete patches, shards and masters, used for concrete inputs.\<close>

definition patch_of :: "string \<Rightarrow> string \<Rightarrow> string list \<Rightarrow> Patch" where
  "patch_of a k vs = \<lparr>Action = a, Key = k, Values = vs\<rparr>"

definition bucket_of :: "int \<Rightarrow> bool \<Rightarrow> Patch list \<Rightarrow> Bucket" where
  "bucket_of n del ps =
     \<lparr>StorageBucketName = ''store'', RelativeFilePath = [], RemoteFilePath = [], Dir = ''work'',
      Number = n, FileName = [], File = Some [], ZippedFileName = [], ZippedFile = Some [],
      IsChanged = False, IsDeleted = del, ZippedHash = [], UnzippedHash = [], PatchCount = 0,
      Patches = ps\<rparr>"

definition master_of :: "Bucket list \<Rightarrow> Master" where
  "master_of bs =
     \<lparr>mStorageBucketName = ''store'', mRemoteDir = ''remote'', mDir = ''work'',
      mFileName = ''master.csv'', mPublic = False, mFile = Some [], mCategories = None,
      mCategoryItems = [], mIsChanged = False, mVersion = [], mUnixTime = 0, mDateTime = [],
      Buckets = bs\<rparr>"

section \<open>Redundancy estimator: \<open>Master.CalculateWastage\<close>\<close>

record change =
  key :: string
  bucketKey :: nat
  patchKey :: nat

text \<open>
  The Go map \<open>changes\<close> as an association list without duplicate keys, in the order in which
  the keys were first inserted; \<open>map_of\<close> is the lookup and \<open>AList.update\<close> the assignment
  \<open>changes[k] = v\<close>.
\<close>

type_synonym changes_map = "(string \<times> change list) list"

fun wastage_patches :: "nat \<Rightarrow> nat \<Rightarrow> Patch list \<Rightarrow> changes_map \<Rightarrow> changes_map" where
  "wastage_patches bKey pKey [] changes = changes"
| "wastage_patches bKey pKey (patch # rest) changes =
     wastage_patches bKey (Suc pKey) rest
       (case map_of changes (GetKey patch) of
          None \<Rightarrow>
            AList.update (GetKey patch)
              [\<lparr>key = GetKey patch, bucketKey = bKey, patchKey = pKey\<rparr>] changes
        | Some history \<Rightarrow>
            AList.update (GetKey patch)
              (history @ [\<lparr>key = GetKey patch, bucketKey = bKey, patchKey = pKey\<rparr>])
              changes)"

fun wastage_buckets :: "nat \<Rightarrow> Bucket list \<Rightarrow> changes_map \<Rightarrow> changes_map" where
  "wastage_buckets bKey [] changes = changes"
| "wastage_buckets bKey (bucket # rest) changes =
     wastage_buckets (Suc bKey) rest (wastage_patches bKey 0 (Patches bucket) changes)"

fun collect_wastage :: "changes_map \<Rightarrow> change list \<Rightarrow> change list" where
  "collect_wastage [] wastage = wastage"
| "collect_wastage ((k, history) # rest) wastage =
     collect_wastage rest
       (if length history > 1 then
          (if length history mod 2 = 0 then wastage @ history
           else wastage @ take (length history - 1) history)
        else wastage)"

subsection \<open>The float64 arithmetic of the percentage\<close>

definition round_half_even :: "rat \<Rightarrow> int" where
  "round_half_even q =
     (let f = \<lfloor>q\<rfloor>; r = q - of_int f
      in if r < 1 / 2 then f else if 1 / 2 < r then f + 1 else if even f then f else f + 1)"

function bit_length :: "int \<Rightarrow> int" where
  "bit_length n = (if n \<le> 0 then 0 else 1 + bit_length (n div 2))"
  by pat_completeness auto
termination
  by (relation "measure nat") auto

declare bit_length.simps [simp del]

definition floor_log2 :: "rat \<Rightarrow> int" where
  "floor_log2 q =
     (let (a, b) = quotient_of q; k = bit_length a - bit_length b
      in if 2 powi k \<le> q then k else k - 1)"

definition float64_round :: "rat \<Rightarrow> rat" where
  "float64_round q =
     (if q = 0 then 0
      else let e = floor_log2 q - 52 in of_int (round_half_even (q / 2 powi e)) * 2 powi e)"

definition float64_of_len :: "nat \<Rightarrow> rat" where
  "float64_of_len n = float64_round (of_nat n)"

definition float64_div :: "rat \<Rightarrow> rat \<Rightarrow> rat option" where
  "float64_div x y = (if y = 0 then None else Some (float64_round (x / y)))"

definition float64_mul :: "rat \<Rightarrow> rat \<Rightarrow> rat" where
  "float64_mul x y = float64_round (x * y)"

definition int_of_float64 :: "rat \<Rightarrow> int option" where
  "int_of_float64 x = (if x < 2 ^ 63 then Some \<lfloor>x\<rfloor> else None)"

definition wastePercent :: "nat \<Rightarrow> nat \<Rightarrow> int option" where
  "wastePercent len_wastage len_changes =
     (case float64_div (float64_of_len len_wastage) (float64_of_len len_changes) of
        None \<Rightarrow> None
      | Some ratio \<Rightarrow> int_of_float64 (float64_mul ratio 100))"

definition CalculateWastage ::
  "(changes_map \<Rightarrow> changes_map) \<Rightarrow> Master \<Rightarrow> int option \<times> error option" where
  "CalculateWastage range_order m =
     (let changes = wastage_buckets 0 (Buckets m) [];
          wastage = collect_wastage (range_order changes) []
      in (wastePercent (length wastage) (length changes), None))"

subsection \<open>The estimator in the words of the specification\<close>

definition all_patches :: "Master \<Rightarrow> Patch list" where
  "all_patches m = concat (map Patches (Buckets m))"

definition all_changes :: "Master \<Rightarrow> change list" where
  "all_changes m =
     concat (map (\<lambda>(bk, bucket).
        map (\<lambda>(pk, patch). \<lparr>key = GetKey patch, bucketKey = bk, patchKey = pk\<rparr>)
          (enumerate 0 (Patches bucket)))
       (enumerate 0 (Buckets m)))"

definition group_by_key :: "change list \<Rightarrow> string \<Rightarrow> change list option" where
  "group_by_key cs k = (case filter (\<lambda>c. key c = k) cs of [] \<Rightarrow> None | h # hs \<Rightarrow> Some (h # hs))"

definition occurrences :: "Master \<Rightarrow> string \<Rightarrow> nat" where
  "occurrences m k = length (filter (\<lambda>p. GetKey p = k) (all_patches m))"

definition wasted_of :: "nat \<Rightarrow> nat" where
  "wasted_of N = (if N > 1 then (if even N then N else N - 1) else 0)"

definition distinct_keys :: "Master \<Rightarrow> string list" where
  "distinct_keys m = remdups (map GetKey (all_patches m))"

definition totalWasted :: "Master \<Rightarrow> nat" where
  "totalWasted m = sum_list (map (\<lambda>k. wasted_of (occurrences m k)) (distinct_keys m))"

definition totalDistinctKeys :: "Master \<Rightarrow> nat" where
  "totalDistinctKeys m = length (distinct_keys m)"

definition spec_percentage :: "Master \<Rightarrow> int" where
  "spec_percentage m = round (100 * rat_of_nat (totalWasted m) / rat_of_nat (totalDistinctKeys m))"

definition wastage_example :: Master where
  "wastage_example =
     master_of [bucket_of 1 True [patch_of ''+'' ''a'' [''1''], patch_of ''+'' ''b'' [''2'']],
                bucket_of 2 False [patch_of ''-'' ''a'' [], patch_of ''+'' ''c'' [''3'']]]"


definition mk_change :: "nat \<Rightarrow> nat \<times> Patch \<Rightarrow> change" where
  "mk_change bKey = (\<lambda>(pKey, patch). \<lparr>key = GetKey patch, bucketKey = bKey, patchKey = pKey\<rparr>)"

section \<open>Library functions the code relies on\<close>

text \<open>\<open>strconv.Itoa\<close> and \<open>strconv.FormatInt(_, 10)\<close>: the decimal numeral of an integer.\<close>

definition digit_char :: "int \<Rightarrow> char" where
  "digit_char d = ''0123456789'' ! nat d"

function digits_of :: "int \<Rightarrow> string" where
  "digits_of n =
     (if n < 10 then [digit_char n] else digits_of (n div 10) @ [digit_char (n mod 10)])"
  by pat_completeness auto
termination
  by (relation "measure nat") auto

declare digits_of.simps [simp del]

definition Itoa :: "int \<Rightarrow> string" where
  "Itoa i = (if i < 0 then CHR ''-'' # digits_of (- i) else digits_of i)"








text \<open>\<open>strings.Join\<close>.\<close>

definition strings_Join :: "string list \<Rightarrow> string \<Rightarrow> string" where
  "strings_Join elems sep = (case elems of [] \<Rightarrow> [] | p # ps \<Rightarrow> foldl (\<lambda>acc q. acc @ sep @ q) p ps)"

definition joinPath :: "string list \<Rightarrow> string" where
  "joinPath parts = strings_Join parts ''/''"

section \<open>The collaborators\<close>

text \<open>
  The storage port. A backend is a function from the calls made so far and the present call to
  its response, so it may answer the same call differently at different times. The calls the
  package makes are recorded in a trace, in order. \<open>CallUpload\<close> stands for the sequence
  \<open>GetUploadWriter\<close>, \<open>io.Copy\<close> into the writer and \<open>Close\<close>, which is the same at its three
  places in the source and treats a failure of any of the three steps alike (report, return);
  its bytes are the content of the uploaded file.
\<close>

record ObjectAttrs =
  Name :: string
  Created :: int

datatype storage_call =
    CallDownloadWriter string string
  | CallUpload string string string
  | CallMakePublic string string
  | CallGetDownloadReader string string
  | CallLs string string
  | CallDelete string string

record response =
  r_error :: "error option"
  r_bytes :: string
  r_files :: "ObjectAttrs list"

type_synonym trace = "storage_call list"

type_synonym Storage = "trace \<Rightarrow> storage_call \<Rightarrow> response"

definition call_storage :: "Storage \<Rightarrow> trace \<Rightarrow> storage_call \<Rightarrow> response \<times> trace" where
  "call_storage st tr c = (st tr c, tr @ [c])"

text \<open>
  What the package takes from the Go libraries and the operating system, as parameters:
  \<^item> \<open>md5_hex bs\<close>: \<open>fmt.Sprintf("%x", md5.Sum(bs))\<close>;
  \<^item> \<open>zlib_compress bs\<close>: what a \<open>zlib.Writer\<close> has written when it is closed after \<open>bs\<close>;
  \<^item> \<open>zlib_NewReader zs\<close>: the error of \<open>zlib.NewReader\<close> on the stream \<open>zs\<close>, if any;
  \<^item> \<open>zlib_read zs\<close>: the bytes \<open>io.Copy\<close> takes out of the reader, and its error, if any;
  \<^item> \<open>csv_records bs\<close>: the records that \<open>csv.Reader.Read\<close> returns on \<open>bs\<close> before it
    returns \<open>io.EOF\<close> (the loops of the package use a record whatever other error comes with
    it); a reader that never reaches \<open>io.EOF\<close> is outside the model;
  \<^item> \<open>csv_row r\<close>: the bytes a \<open>csv.Writer\<close> writes for the record \<open>r\<close>;
  \<^item> \<open>OpenFile dir name\<close>: \<open>os.OpenFile(filepath.Join(dir, name), O_RDWR|O_CREATE, _)\<close>,
    giving the content of the file;
  \<^item> \<open>Create dir name\<close>: the error of \<open>os.Create(filepath.Join(dir, name))\<close>, if any;
  \<^item> \<open>http_Get url\<close>: \<open>http.Get\<close>, giving the body of the response;
  \<^item> \<open>Error e\<close>: the message \<open>e.Error()\<close>.
\<close>

record env =
  md5_hex :: "string \<Rightarrow> string"
  zlib_compress :: "string \<Rightarrow> string"
  zlib_NewReader :: "string \<Rightarrow> error option"
  zlib_read :: "string \<Rightarrow> string \<times> error option"
  csv_records :: "string \<Rightarrow> string list list"
  csv_row :: "string list \<Rightarrow> string"
  OpenFile :: "string \<Rightarrow> string \<Rightarrow> error + string"
  Create :: "string \<Rightarrow> string \<Rightarrow> error option"
  http_Get :: "string \<Rightarrow> error + string"
  Error :: "error \<Rightarrow> string"

text \<open>
  Operations on a file handle. On an open file they succeed (a full disk or a failing device
  is outside the model); on a nil or closed handle they return an error.
\<close>

definition SeekStart :: "os_file \<Rightarrow> error + nat" where
  "SeekStart f = (case f of None \<Rightarrow> Inl ErrInvalidFile | Some bs \<Rightarrow> Inr 0)"


definition Truncate :: "os_file \<Rightarrow> error + os_file" where
  "Truncate f = (case f of None \<Rightarrow> Inl ErrInvalidFile | Some bs \<Rightarrow> Inr (Some []))"

definition contents :: "os_file \<Rightarrow> string" where
  "contents f = (case f of None \<Rightarrow> [] | Some bs \<Rightarrow> bs)"

definition checksumReadSeeker :: "env \<Rightarrow> os_file \<Rightarrow> error + string" where
  "checksumReadSeeker ev seeker =
     (case SeekStart seeker of
        Inl e \<Rightarrow> Inl e
      | Inr _ \<Rightarrow> Inr (md5_hex ev (contents seeker)))"

section \<open>Shard operations\<close>



definition Unzip :: "env \<Rightarrow> Bucket \<Rightarrow> error option \<times> Bucket" where
  "Unzip ev b =
     (case checksumReadSeeker ev (ZippedFile b) of
        Inl e \<Rightarrow> (Some e, b)
      | Inr checksum \<Rightarrow>
          if ZippedHash b \<noteq> checksum then (Some (InvalidZippedChecksum (RemoteFilePath b)), b)
          else
            (case SeekStart (ZippedFile b) of
               Inl e \<Rightarrow> (Some e, b)
             | Inr _ \<Rightarrow>
                 (case zlib_NewReader ev (contents (ZippedFile b)) of
                    Some e \<Rightarrow> (Some e, b)
                  | None \<Rightarrow>
                      (case Truncate (File b) of
                         Inl e \<Rightarrow> (Some e, b)
                       | Inr f0 \<Rightarrow>
                           (case SeekStart f0 of
                              Inl e \<Rightarrow> (Some e, b\<lparr>File := f0\<rparr>)
                            | Inr _ \<Rightarrow>
                                (snd (zlib_read ev (contents (ZippedFile b))),
                                 b\<lparr>File := Some (fst (zlib_read ev (contents (ZippedFile b))))\<rparr>))))))"

text \<open>
  The loop of \<open>VerifyUnzipped\<close> over the records of the staging file. The validator gets the
  record and the shard as it is at that moment; it is taken to be a function of the two.
\<close>

fun verify_rows ::
  "(string list \<Rightarrow> Bucket \<Rightarrow> error option) \<Rightarrow> Bucket \<Rightarrow> string list list \<Rightarrow> error option \<times> Bucket" where
  "verify_rows Validation b [] = (None, b)"
| "verify_rows Validation b (line # rest) =
     (case Validation line b of
        Some validationE \<Rightarrow> (Some validationE, b)
      | None \<Rightarrow>
          if length line < 2 then (Some (RowTooShort (RemoteFilePath b)), b)
          else if length line = 2 then
            verify_rows Validation
              (b\<lparr>Patches := Patches b @ [\<lparr>Action = line ! 0, Key = line ! 1, Values = []\<rparr>]\<rparr>) rest
          else
            verify_rows Validation
              (b\<lparr>Patches := Patches b @ [\<lparr>Action = line ! 0, Key = line ! 1, Values = drop 2 line\<rparr>]\<rparr>)
              rest)"

definition VerifyUnzipped ::
  "env \<Rightarrow> (string list \<Rightarrow> Bucket \<Rightarrow> error option) \<Rightarrow> Bucket \<Rightarrow> error option \<times> Bucket" where
  "VerifyUnzipped ev Validation b =
     (case checksumReadSeeker ev (File b) of
        Inl e \<Rightarrow> (Some e, b)
      | Inr checksum \<Rightarrow>
          if UnzippedHash b \<noteq> checksum then (Some (InvalidUnzippedChecksum (RemoteFilePath b)), b)
          else
            (case SeekStart (File b) of
               Inl e \<Rightarrow> (Some e, b)
             | Inr _ \<Rightarrow>
                 (case verify_rows Validation b (csv_records ev (contents (File b))) of
                    (Some e, b') \<Rightarrow> (Some e, b')
                  | (None, b') \<Rightarrow>
                      (case SeekStart (File b') of
                         Inl e \<Rightarrow> (Some e, b')
                       | Inr _ \<Rightarrow> (None, b')))))"

definition Bucket_Download ::
  "Storage \<Rightarrow> env \<Rightarrow> (string list \<Rightarrow> Bucket \<Rightarrow> error option) \<Rightarrow> trace \<Rightarrow> Bucket
     \<Rightarrow> error option \<times> Bucket \<times> trace" where
  "Bucket_Download st ev Validation tr b =
     (case Truncate (ZippedFile b) of
        Inl e \<Rightarrow> (Some e, b, tr)
      | Inr z0 \<Rightarrow>
          (case SeekStart z0 of
             Inl e \<Rightarrow> (Some e, b\<lparr>ZippedFile := z0\<rparr>, tr)
           | Inr _ \<Rightarrow>
               let (r, tr') = call_storage st tr
                      (CallDownloadWriter (StorageBucketName b) (RemoteFilePath b));
                   b1 = b\<lparr>ZippedFile := Some (r_bytes r)\<rparr>;
                   fatal = (case r_error r of
                              None \<Rightarrow> None
                            | Some e \<Rightarrow> if errors_Is_ErrObjectNotExist e then None else Some e)
               in case fatal of
                    Some e \<Rightarrow> (Some e, b1, tr')
                  | None \<Rightarrow>
                      (case Unzip ev b1 of
                         (Some e, b2) \<Rightarrow> (Some e, b2, tr')
                       | (None, b2) \<Rightarrow>
                           (case VerifyUnzipped ev Validation b2 of
                              (Some e, b3) \<Rightarrow> (Some e, b3, tr')
                            | (None, b3) \<Rightarrow> (None, b3, tr')))))"



definition Compress :: "env \<Rightarrow> Bucket \<Rightarrow> error option \<times> Bucket" where
  "Compress ev b =
     (case Truncate (ZippedFile b) of
        Inl e \<Rightarrow> (Some e, b)
      | Inr z0 \<Rightarrow>
          (case SeekStart (File b) of
             Inl e \<Rightarrow> (Some e, b\<lparr>ZippedFile := z0\<rparr>)
           | Inr _ \<Rightarrow>
               (case SeekStart z0 of
                  Inl e \<Rightarrow> (Some e, b\<lparr>ZippedFile := z0\<rparr>)
                | Inr _ \<Rightarrow> (None, b\<lparr>ZippedFile := Some (zlib_compress ev (contents (File b)))\<rparr>))))"

fun validate_rows ::
  "(string list \<Rightarrow> Bucket \<Rightarrow> error option) \<Rightarrow> Bucket \<Rightarrow> string list list \<Rightarrow> error option" where
  "validate_rows Validation b [] = None"
| "validate_rows Validation b (line # rest) =
     (case Validation line b of
        Some validationE \<Rightarrow> Some validationE
      | None \<Rightarrow> validate_rows Validation b rest)"

text \<open>
  \<open>VerifyZipped\<close> reads the records of the decompressed stream; a stream that breaks off with
  an error before its end is outside the model.
\<close>

definition VerifyZipped ::
  "env \<Rightarrow> (string list \<Rightarrow> Bucket \<Rightarrow> error option) \<Rightarrow> Bucket \<Rightarrow> error option" where
  "VerifyZipped ev Validation b =
     (case SeekStart (ZippedFile b) of
        Inl e \<Rightarrow> Some e
      | Inr _ \<Rightarrow>
          (case zlib_NewReader ev (contents (ZippedFile b)) of
             Some e \<Rightarrow> Some e
           | None \<Rightarrow>
               validate_rows Validation b
                 (csv_records ev (fst (zlib_read ev (contents (ZippedFile b)))))))"

definition Hash :: "env \<Rightarrow> Bucket \<Rightarrow> error option \<times> Bucket" where
  "Hash ev b =
     (case checksumReadSeeker ev (File b) of
        Inl e \<Rightarrow> (Some e, b\<lparr>UnzippedHash := []\<rparr>)
      | Inr h \<Rightarrow>
          (case checksumReadSeeker ev (ZippedFile b) of
             Inl e \<Rightarrow> (Some e, b\<lparr>UnzippedHash := h, ZippedHash := []\<rparr>)
           | Inr z \<Rightarrow> (None, b\<lparr>UnzippedHash := h, ZippedHash := z\<rparr>)))"

text \<open>
  \<open>Bucket.Upload\<close>, \<open>Categories.Upload\<close> and the end of \<open>Master.UploadToStorageBucket\<close> are
  the same text up to the file and the path: seek the file, upload its content under the remote
  path, and make the object public when asked.
\<close>

definition upload_file ::
  "Storage \<Rightarrow> trace \<Rightarrow> string \<Rightarrow> string \<Rightarrow> os_file \<Rightarrow> bool \<Rightarrow> error option \<times> trace" where
  "upload_file st tr storageBucketName remoteFilePath f public =
     (case SeekStart f of
        Inl e \<Rightarrow> (Some e, tr)
      | Inr _ \<Rightarrow>
          let (r, tr1) = call_storage st tr
                 (CallUpload storageBucketName remoteFilePath (contents f))
          in case r_error r of
               Some e \<Rightarrow> (Some e, tr1)
             | None \<Rightarrow>
                 if public then
                   let (r2, tr2) = call_storage st tr1 (CallMakePublic storageBucketName remoteFilePath)
                   in (r_error r2, tr2)
                 else (None, tr1))"

definition Bucket_Upload :: "Storage \<Rightarrow> trace \<Rightarrow> Bucket \<Rightarrow> bool \<Rightarrow> error option \<times> trace" where
  "Bucket_Upload st tr b public =
     upload_file st tr (StorageBucketName b) (RemoteFilePath b) (ZippedFile b) public"


section \<open>A concrete environment\<close>

text \<open>
  Stand-ins for the libraries, used to evaluate the operations on concrete inputs: the digest of
  a byte string is the string itself, compression puts the byte \<open>Z\<close> in front, a CSV record is
  its fields separated by commas and ended by a newline (no quoting), every file can be opened
  and is empty.
\<close>

fun split_on :: "char \<Rightarrow> string \<Rightarrow> string \<Rightarrow> string list" where
  "split_on sep cur [] = [cur]"
| "split_on sep cur (c # cs) = (if c = sep then cur # split_on sep [] cs else split_on sep (cur @ [c]) cs)"

definition demo_csv_records :: "string \<Rightarrow> string list list" where
  "demo_csv_records bs = map (split_on CHR '','' []) (filter (\<lambda>l. l \<noteq> []) (split_on CHR 0x0A [] bs))"

definition demo_csv_row :: "string list \<Rightarrow> string" where
  "demo_csv_row r = strings_Join r '','' @ [CHR 0x0A]"

definition demo_env :: env where
  "demo_env =
     \<lparr>md5_hex = (\<lambda>bs. bs),
      zlib_compress = (\<lambda>bs. CHR ''Z'' # bs),
      zlib_NewReader = (\<lambda>zs. if take 1 zs = ''Z'' then None else Some (ZlibError ''invalid header'')),
      zlib_read = (\<lambda>zs. (drop 1 zs, None)),
      csv_records = demo_csv_records,
      csv_row = demo_csv_row,
      OpenFile = (\<lambda>dir name. Inr []),
      Create = (\<lambda>dir name. None),
      http_Get = (\<lambda>url. Inr []),
      Error = (\<lambda>e. case e of ErrObjectNotExist \<Rightarrow> ''storage: object doesn't exist'' | _ \<Rightarrow> ''error'')\<rparr>"

definition accept_all :: "string list \<Rightarrow> Bucket \<Rightarrow> error option" where
  "accept_all line b = None"

text \<open>A validator that rejects every row with fewer than two columns.\<close>

definition reject_short :: "string list \<Rightarrow> Bucket \<Rightarrow> error option" where
  "reject_short line b = (if length line < 2 then Some (ValidationError ''short row'') else None)"

text \<open>Two shards for \<open>Unzip\<close>: one whose recorded digest is wrong, one whose digest is right.\<close>

definition unzip_bad :: Bucket where
  "unzip_bad = (bucket_of 1 False [])\<lparr>File := Some ''+,old'', ZippedFile := Some ''Z+,k,v'', ZippedHash := ''other''\<rparr>"

definition unzip_good :: Bucket where
  "unzip_good = (bucket_of 1 False [])\<lparr>File := Some ''+,old'', ZippedFile := Some ''Z+,k,v'', ZippedHash := ''Z+,k,v''\<rparr>"

text \<open>
  The patch a record stands for, in the words of the specification: the first column is the
  action, the second the key, the remaining columns the values.
\<close>

definition row_patch :: "string list \<Rightarrow> Patch" where
  "row_patch line = \<lparr>Action = line ! 0, Key = line ! 1, Values = drop 2 line\<rparr>"

definition add_rows :: "Bucket \<Rightarrow> string list list \<Rightarrow> Bucket" where
  "add_rows b rows = b\<lparr>Patches := Patches b @ map row_patch rows\<rparr>"

definition good_log :: string where
  "good_log = demo_csv_row [''+'', ''k'', ''v'', ''w''] @ demo_csv_row [''-'', ''k'']"

definition short_log :: string where
  "short_log = demo_csv_row [''+'', ''k'', ''v''] @ demo_csv_row [''bad''] @ demo_csv_row [''-'', ''k'']"

definition verify_good :: Bucket where
  "verify_good = (bucket_of 1 False [])\<lparr>File := Some good_log, UnzippedHash := good_log\<rparr>"

definition verify_short :: Bucket where
  "verify_short = (bucket_of 1 False [])\<lparr>File := Some short_log, UnzippedHash := short_log\<rparr>"


text \<open>Backends for concrete inputs: one that answers every call with the same response.\<close>

definition const_storage :: "error option \<Rightarrow> string \<Rightarrow> Storage" where
  "const_storage e bs = (\<lambda>tr c. \<lparr>r_error = e, r_bytes = bs, r_files = []\<rparr>)"

text \<open>
  Shards for concrete downloads: one whose recorded digests are those of \<open>good_log\<close>, and one
  whose recorded digests are those of no bytes.
\<close>

definition download_good :: Bucket where
  "download_good =
     (bucket_of 1 False [])\<lparr>RemoteFilePath := ''remote/17-1.csv.zlib'',
        ZippedHash := CHR ''Z'' # good_log, UnzippedHash := good_log\<rparr>"

definition download_empty :: Bucket where
  "download_empty = (bucket_of 2 False [])\<lparr>RemoteFilePath := ''remote/17-2.csv.zlib''\<rparr>"

section \<open>Appending a patch: \<open>Master.AddPatch\<close>\<close>












section \<open>Remote cleanup: \<open>Master.CleanupOldFiles\<close>\<close>

text \<open>
  Times are in nanoseconds. \<open>time.Now()\<close> is read once for every listed object that is not
  found in the master; \<open>now i\<close> is the reading taken for the object at position \<open>i\<close> of the
  listing.
\<close>

definition day :: int where
  "day = 24 * 3600 * 1000000000"

definition found_in_master :: "Master \<Rightarrow> string \<Rightarrow> bool" where
  "found_in_master m name =
     (let found = False;
          found = (case mCategories m of
                     Some c \<Rightarrow> if name = cRemoteFilePath c then True else found
                   | None \<Rightarrow> found);
          found = fold (\<lambda>bucket found. if name = RemoteFilePath bucket then True else found)
                    (Buckets m) found;
          found = (if name = mRemoteDir m @ ''/'' @ mFileName m then True else found)
      in found)"

fun cleanup_files ::
  "Storage \<Rightarrow> (nat \<Rightarrow> int) \<Rightarrow> Master \<Rightarrow> nat \<Rightarrow> trace \<Rightarrow> ObjectAttrs list \<Rightarrow> error option \<times> trace" where
  "cleanup_files st now m i tr [] = (None, tr)"
| "cleanup_files st now m i tr (file # rest) =
     (if \<not> found_in_master m (Name file) then
        if Created file < now i - day then
          (case call_storage st tr (CallDelete (mStorageBucketName m) (Name file)) of
             (r, tr') \<Rightarrow>
               (case r_error r of
                  Some e \<Rightarrow> (Some e, tr')
                | None \<Rightarrow> cleanup_files st now m (Suc i) tr' rest))
        else cleanup_files st now m (Suc i) tr rest
      else cleanup_files st now m (Suc i) tr rest)"

definition CleanupOldFiles ::
  "Storage \<Rightarrow> (nat \<Rightarrow> int) \<Rightarrow> Master \<Rightarrow> trace \<Rightarrow> error option \<times> trace" where
  "CleanupOldFiles st now m tr =
     (case call_storage st tr (CallLs (mStorageBucketName m) (mRemoteDir m)) of
        (r, tr') \<Rightarrow>
          (case r_error r of
             Some e \<Rightarrow> (Some e, tr')
           | None \<Rightarrow> cleanup_files st now m 0 tr' (r_files r)))"

text \<open>
  In the words of the specification: an object is unreferenced when its name is neither the
  categories path, nor the remote path of any shard, nor the path of the master itself; it is
  to be deleted when it is unreferenced and was created more than 24 hours before the clock
  reading taken for it.
\<close>

definition unreferenced :: "Master \<Rightarrow> string \<Rightarrow> bool" where
  "unreferenced m name \<longleftrightarrow>
     (case mCategories m of Some c \<Rightarrow> name \<noteq> cRemoteFilePath c | None \<Rightarrow> True) \<and>
     name \<notin> set (map RemoteFilePath (Buckets m)) \<and>
     name \<noteq> mRemoteDir m @ ''/'' @ mFileName m"

definition deletable :: "(nat \<Rightarrow> int) \<Rightarrow> Master \<Rightarrow> nat \<times> ObjectAttrs \<Rightarrow> bool" where
  "deletable now m = (\<lambda>(i, file). unreferenced m (Name file) \<and> day < now i - Created file)"

definition deletions :: "(nat \<Rightarrow> int) \<Rightarrow> Master \<Rightarrow> nat \<Rightarrow> ObjectAttrs list \<Rightarrow> trace" where
  "deletions now m i files =
     map (\<lambda>(j, file). CallDelete (mStorageBucketName m) (Name file))
       (filter (deletable now m) (enumerate i files))"

text \<open>Every call of the list, made after the calls \<open>tr\<close>, was answered without error.\<close>

fun answered_ok :: "Storage \<Rightarrow> trace \<Rightarrow> trace \<Rightarrow> bool" where
  "answered_ok st tr [] = True"
| "answered_ok st tr (c # cs) = (r_error (st tr c) = None \<and> answered_ok st (tr @ [c]) cs)"


text \<open>
  A backend for concrete sweeps: it lists four objects (the master document, an old orphan, a
  young orphan, another old orphan) and refuses to delete the names it is given.
\<close>

definition sweep_listing :: "ObjectAttrs list" where
  "sweep_listing =
     [\<lparr>Name = ''remote/master.csv'', Created = 0\<rparr>,
      \<lparr>Name = ''remote/5-1.csv.zlib'', Created = 0\<rparr>,
      \<lparr>Name = ''remote/9-2.csv.zlib'', Created = 2 * day\<rparr>,
      \<lparr>Name = ''remote/6-1.csv.zlib'', Created = 10\<rparr>]"

definition sweep_storage :: "string list \<Rightarrow> Storage" where
  "sweep_storage refused =
     (\<lambda>tr c. case c of
        CallLs b d \<Rightarrow> \<lparr>r_error = None, r_bytes = [], r_files = sweep_listing\<rparr>
      | CallDelete b n \<Rightarrow>
          \<lparr>r_error = (if n \<in> set refused then Some (StorageError ''denied'') else None),
           r_bytes = [], r_files = []\<rparr>
      | _ \<Rightarrow> \<lparr>r_error = None, r_bytes = [], r_files = []\<rparr>)"

definition sweep_clock :: "nat \<Rightarrow> int" where
  "sweep_clock i = 2 * day + 5"

text \<open>
  A clock for a slow sweep: the readings for the first two objects of the listing are taken
  at \<open>2 * day + 5\<close>, the later ones two days after that.
\<close>

definition sweep_clock_slow :: "nat \<Rightarrow> int" where
  "sweep_clock_slow i = (if i < 2 then 2 * day + 5 else 4 * day + 5)"

section \<open>Categories operations\<close>

definition NewCategories ::
  "string \<Rightarrow> string \<Rightarrow> string \<Rightarrow> string \<Rightarrow> string \<Rightarrow> string \<Rightarrow> CategoriesItem list \<Rightarrow> Categories" where
  "NewCategories storageBucketName relativeFilePath remoteFilePath dir zippedHash unzippedHash
      categoryItems =
     \<lparr>cStorageBucketName = storageBucketName,
      cRelativeFilePath = relativeFilePath,
      cRemoteFilePath = remoteFilePath,
      cDir = dir,
      cFileName = ''categories.csv'',
      cFile = None,
      cZippedFileName = ''categories.csv.zlib'',
      cZippedFile = None,
      cZippedHash = zippedHash,
      cUnzippedHash = unzippedHash,
      cCategoryItems = categoryItems\<rparr>"



fun categories_rows :: "Categories \<Rightarrow> string list list \<Rightarrow> error option" where
  "categories_rows c [] = None"
| "categories_rows c (line # rest) =
     (if length line \<noteq> 4 then Some (CategoriesRowNot4 (cRemoteFilePath c))
      else categories_rows c rest)"




section \<open>Parsing the master document: \<open>Master.Download\<close>\<close>







section \<open>Publishing: \<open>Master.UploadToStorageBucket\<close>\<close>

definition Categories_Write :: "env \<Rightarrow> Categories \<Rightarrow> error option \<times> Categories" where
  "Categories_Write ev c =
     (case Truncate (cFile c) of
        Inl e \<Rightarrow> (Some e, c)
      | Inr f0 \<Rightarrow>
          (case SeekStart f0 of
             Inl e \<Rightarrow> (Some e, c\<lparr>cFile := f0\<rparr>)
           | Inr _ \<Rightarrow>
               (None,
                c\<lparr>cFile := Some (concat (map (\<lambda>definition.
                     csv_row ev [Itoa (GetId definition), GetCategory definition,
                                 GetSubcategory definition, GetDescription definition])
                   (cCategoryItems c)))\<rparr>)))"

definition Categories_IsChanged :: "env \<Rightarrow> Categories \<Rightarrow> bool \<times> error option" where
  "Categories_IsChanged ev c =
     (case checksumReadSeeker ev (cFile c) of
        Inl e \<Rightarrow> (False, Some e)
      | Inr computed \<Rightarrow> (computed \<noteq> cUnzippedHash c, None))"

definition Categories_Compress :: "env \<Rightarrow> Categories \<Rightarrow> error option \<times> Categories" where
  "Categories_Compress ev c =
     (case Truncate (cZippedFile c) of
        Inl e \<Rightarrow> (Some e, c)
      | Inr z0 \<Rightarrow>
          (case SeekStart (cFile c) of
             Inl e \<Rightarrow> (Some e, c\<lparr>cZippedFile := z0\<rparr>)
           | Inr _ \<Rightarrow>
               (case SeekStart z0 of
                  Inl e \<Rightarrow> (Some e, c\<lparr>cZippedFile := z0\<rparr>)
                | Inr _ \<Rightarrow> (None, c\<lparr>cZippedFile := Some (zlib_compress ev (contents (cFile c)))\<rparr>))))"

definition Categories_Hash :: "env \<Rightarrow> Categories \<Rightarrow> error option \<times> Categories" where
  "Categories_Hash ev c =
     (case checksumReadSeeker ev (cFile c) of
        Inl e \<Rightarrow> (Some e, c\<lparr>cUnzippedHash := []\<rparr>)
      | Inr h \<Rightarrow>
          (case checksumReadSeeker ev (cZippedFile c) of
             Inl e \<Rightarrow> (Some e, c\<lparr>cUnzippedHash := h, cZippedHash := []\<rparr>)
           | Inr z \<Rightarrow> (None, c\<lparr>cUnzippedHash := h, cZippedHash := z\<rparr>)))"

definition Categories_Upload :: "Storage \<Rightarrow> trace \<Rightarrow> Categories \<Rightarrow> bool \<Rightarrow> error option \<times> trace" where
  "Categories_Upload st tr c public =
     upload_file st tr (cStorageBucketName c) (cRemoteFilePath c) (cZippedFile c) public"

text \<open>
  One \<open>masterCsv.Write\<close> followed by \<open>Flush\<close> and \<open>Error\<close>: the record goes to the end of the
  master file.
\<close>

definition csv_write :: "env \<Rightarrow> os_file \<Rightarrow> string list \<Rightarrow> error option \<times> os_file" where
  "csv_write ev f record =
     (case f of
        None \<Rightarrow> (Some ErrInvalidFile, None)
      | Some old \<Rightarrow> (None, Some (old @ csv_row ev record)))"

text \<open>
  The publish, in the order of the source. First the time stamp and the header row.
  \<open>unixTime\<close> is \<open>now.Unix()\<close> and \<open>dateTime\<close> is \<open>now.Format(cbutil.DateTimeFormat)\<close>.
\<close>

definition publish_header :: "env \<Rightarrow> int \<Rightarrow> string \<Rightarrow> Master \<Rightarrow> error option \<times> Master" where
  "publish_header ev unixTime dateTime m =
     (let m1 = m\<lparr>mUnixTime := unixTime, mDateTime := dateTime\<rparr>
      in case Truncate (mFile m1) of
           Inl e \<Rightarrow> (Some e, m1)
         | Inr f0 \<Rightarrow>
             (case SeekStart f0 of
                Inl e \<Rightarrow> (Some e, m1\<lparr>mFile := f0\<rparr>)
              | Inr _ \<Rightarrow>
                  (case csv_write ev f0 [''V1'', Itoa (mUnixTime m1), mDateTime m1] of
                     (e, f1) \<Rightarrow> (e, m1\<lparr>mFile := f1\<rparr>))))"

text \<open>The block \<open>if categoriesChanged\<close>.\<close>

definition publish_changed_categories ::
  "Storage \<Rightarrow> env \<Rightarrow> bool \<Rightarrow> int \<Rightarrow> string \<Rightarrow> trace \<Rightarrow> Categories \<Rightarrow> error option \<times> Categories \<times> trace" where
  "publish_changed_categories st ev public unixTime remoteDir tr c =
     (case Categories_Compress ev c of
        (Some e, c1) \<Rightarrow> (Some e, c1, tr)
      | (None, c1) \<Rightarrow>
          (case Categories_Hash ev c1 of
             (Some e, c2) \<Rightarrow> (Some e, c2, tr)
           | (None, c2) \<Rightarrow>
               (case Categories_Upload st tr
                       (c2\<lparr>cRelativeFilePath := Itoa unixTime @ ''-'' @ cZippedFileName c2,
                           cRemoteFilePath :=
                             joinPath [remoteDir, Itoa unixTime @ ''-'' @ cZippedFileName c2]\<rparr>)
                       public of
                  (e, tr') \<Rightarrow>
                    (e,
                     c2\<lparr>cRelativeFilePath := Itoa unixTime @ ''-'' @ cZippedFileName c2,
                        cRemoteFilePath :=
                          joinPath [remoteDir, Itoa unixTime @ ''-'' @ cZippedFileName c2]\<rparr>,
                     tr'))))"

text \<open>The block \<open>if m.Categories != nil\<close>.\<close>

definition publish_categories ::
  "Storage \<Rightarrow> env \<Rightarrow> trace \<Rightarrow> Master \<Rightarrow> error option \<times> Master \<times> trace" where
  "publish_categories st ev tr m =
     (case mCategories m of
        None \<Rightarrow> (None, m, tr)
      | Some c \<Rightarrow>
          (case Categories_Write ev c of
             (Some e, c1) \<Rightarrow> (Some e, m\<lparr>mCategories := Some c1\<rparr>, tr)
           | (None, c1) \<Rightarrow>
               (case Categories_IsChanged ev c1 of
                  (categoriesChanged, Some e) \<Rightarrow> (Some e, m\<lparr>mCategories := Some c1\<rparr>, tr)
                | (categoriesChanged, None) \<Rightarrow>
                    (case (if categoriesChanged
                           then publish_changed_categories st ev (mPublic m) (mUnixTime m)
                                  (mRemoteDir m) tr c1
                           else (None, c1, tr)) of
                       (Some e, c2, tr') \<Rightarrow> (Some e, m\<lparr>mCategories := Some c2\<rparr>, tr')
                     | (None, c2, tr') \<Rightarrow>
                         (case csv_write ev (mFile m)
                                 [''-1'', cRelativeFilePath c2, ''zlib'', cZippedHash c2,
                                  cUnzippedHash c2, Itoa (int (length (mCategoryItems m)))] of
                            (e, f1) \<Rightarrow> (e, m\<lparr>mCategories := Some c2, mFile := f1\<rparr>, tr'))))))"

text \<open>The block \<open>if bucket.IsChanged\<close> of the loop over the shards.\<close>

definition publish_changed_bucket ::
  "Storage \<Rightarrow> env \<Rightarrow> (string list \<Rightarrow> Bucket \<Rightarrow> error option) \<Rightarrow> bool \<Rightarrow> int \<Rightarrow> string \<Rightarrow> trace
     \<Rightarrow> Bucket \<Rightarrow> error option \<times> Bucket \<times> trace" where
  "publish_changed_bucket st ev Validation public unixTime remoteDir tr bucket =
     (case Compress ev bucket of
        (Some e, b1) \<Rightarrow> (Some e, b1, tr)
      | (None, b1) \<Rightarrow>
          (case VerifyZipped ev Validation b1 of
             Some e \<Rightarrow> (Some e, b1, tr)
           | None \<Rightarrow>
               (case Hash ev b1 of
                  (Some e, b2) \<Rightarrow> (Some e, b2, tr)
                | (None, b2) \<Rightarrow>
                    (case Bucket_Upload st tr
                            (b2\<lparr>RelativeFilePath := Itoa unixTime @ ''-'' @ ZippedFileName b2,
                                RemoteFilePath :=
                                  joinPath [remoteDir, Itoa unixTime @ ''-'' @ ZippedFileName b2]\<rparr>)
                            public of
                       (e, tr') \<Rightarrow>
                         (e,
                          b2\<lparr>RelativeFilePath := Itoa unixTime @ ''-'' @ ZippedFileName b2,
                             RemoteFilePath :=
                               joinPath [remoteDir, Itoa unixTime @ ''-'' @ ZippedFileName b2]\<rparr>,
                          tr')))))"

definition descriptor_row :: "Bucket \<Rightarrow> string list" where
  "descriptor_row bucket =
     [Itoa (Number bucket), RelativeFilePath bucket, ''zlib'', ZippedHash bucket,
      UnzippedHash bucket, Itoa (int (length (Patches bucket)))]"

text \<open>
  The loop over the shards. It carries the master file and the trace; the shards are pointers,
  so a shard keeps what the loop did to it also when the publish fails later.
\<close>

fun publish_buckets ::
  "Storage \<Rightarrow> env \<Rightarrow> (string list \<Rightarrow> Bucket \<Rightarrow> error option) \<Rightarrow> bool \<Rightarrow> int \<Rightarrow> string
     \<Rightarrow> os_file \<times> trace \<Rightarrow> Bucket list \<Rightarrow> error option \<times> Bucket list \<times> os_file \<times> trace" where
  "publish_buckets st ev Validation public unixTime remoteDir (mf, tr) [] = (None, [], mf, tr)"
| "publish_buckets st ev Validation public unixTime remoteDir (mf, tr) (bucket # rest) =
     (if IsDeleted bucket then
        (case publish_buckets st ev Validation public unixTime remoteDir (mf, tr) rest of
           (e, rest', mf', tr') \<Rightarrow> (e, bucket # rest', mf', tr'))
      else
        (case (if IsChanged bucket
               then publish_changed_bucket st ev Validation public unixTime remoteDir tr bucket
               else (None, bucket, tr)) of
           (Some e, b', tr') \<Rightarrow> (Some e, b' # rest, mf, tr')
         | (None, b', tr') \<Rightarrow>
             (case csv_write ev mf (descriptor_row b') of
                (Some e, mf') \<Rightarrow> (Some e, b' # rest, mf', tr')
              | (None, mf') \<Rightarrow>
                  (case publish_buckets st ev Validation public unixTime remoteDir (mf', tr') rest of
                     (e, rest', mf'', tr'') \<Rightarrow> (e, b' # rest', mf'', tr'')))))"

text \<open>The upload of the master document itself.\<close>

definition publish_master :: "Storage \<Rightarrow> trace \<Rightarrow> Master \<Rightarrow> error option \<times> trace" where
  "publish_master st tr m =
     upload_file st tr (mStorageBucketName m) (joinPath [mRemoteDir m, mFileName m]) (mFile m)
       (mPublic m)"

definition UploadToStorageBucket ::
  "Storage \<Rightarrow> env \<Rightarrow> (string list \<Rightarrow> Bucket \<Rightarrow> error option) \<Rightarrow> int \<Rightarrow> string \<Rightarrow> trace \<Rightarrow> Master
     \<Rightarrow> error option \<times> Master \<times> trace" where
  "UploadToStorageBucket st ev Validation unixTime dateTime tr m =
     (case publish_header ev unixTime dateTime m of
        (Some e, m1) \<Rightarrow> (Some e, m1, tr)
      | (None, m1) \<Rightarrow>
          (case publish_categories st ev tr m1 of
             (Some e, m2, tr2) \<Rightarrow> (Some e, m2, tr2)
           | (None, m2, tr2) \<Rightarrow>
               (case publish_buckets st ev Validation (mPublic m2) (mUnixTime m2) (mRemoteDir m2)
                       (mFile m2, tr2) (Buckets m2) of
                  (Some e, bs, mf, tr3) \<Rightarrow> (Some e, m2\<lparr>Buckets := bs, mFile := mf\<rparr>, tr3)
                | (None, bs, mf, tr3) \<Rightarrow>
                    (case publish_master st tr3 (m2\<lparr>Buckets := bs, mFile := mf\<rparr>) of
                       (e, tr4) \<Rightarrow> (e, m2\<lparr>Buckets := bs, mFile := mf\<rparr>, tr4)))))"


text \<open>
  What a successful publish leaves behind, in the words of the specification. A changed shard
  is compressed, hashed and relocated to \<open>{remoteDir}/{unixTime}-{number}.csv.zlib\<close>; the
  categories snapshot is rewritten from the configured items and, if its digest differs from
  the recorded one, compressed, hashed and relocated in the same way.
\<close>

definition published :: "env \<Rightarrow> int \<Rightarrow> string \<Rightarrow> Bucket \<Rightarrow> Bucket" where
  "published ev unixTime remoteDir b =
     b\<lparr>ZippedFile := Some (zlib_compress ev (contents (File b))),
       UnzippedHash := md5_hex ev (contents (File b)),
       ZippedHash := md5_hex ev (zlib_compress ev (contents (File b))),
       RelativeFilePath := Itoa unixTime @ ''-'' @ ZippedFileName b,
       RemoteFilePath := remoteDir @ ''/'' @ Itoa unixTime @ ''-'' @ ZippedFileName b\<rparr>"

definition after_publish :: "env \<Rightarrow> int \<Rightarrow> string \<Rightarrow> Bucket \<Rightarrow> Bucket" where
  "after_publish ev unixTime remoteDir b =
     (if \<not> IsDeleted b \<and> IsChanged b then published ev unixTime remoteDir b else b)"

definition upload_calls :: "bool \<Rightarrow> string \<Rightarrow> string \<Rightarrow> string \<Rightarrow> trace" where
  "upload_calls public storageBucketName path bytes =
     CallUpload storageBucketName path bytes #
     (if public then [CallMakePublic storageBucketName path] else [])"

definition bucket_calls :: "bool \<Rightarrow> Bucket \<Rightarrow> trace" where
  "bucket_calls public b =
     upload_calls public (StorageBucketName b) (RemoteFilePath b) (contents (ZippedFile b))"

definition written_categories :: "env \<Rightarrow> Categories \<Rightarrow> Categories" where
  "written_categories ev c =
     c\<lparr>cFile := Some (concat (map (\<lambda>d.
          csv_row ev [Itoa (GetId d), GetCategory d, GetSubcategory d, GetDescription d])
        (cCategoryItems c)))\<rparr>"

definition categories_changed :: "env \<Rightarrow> Categories \<Rightarrow> bool" where
  "categories_changed ev c \<longleftrightarrow>
     md5_hex ev (contents (cFile (written_categories ev c))) \<noteq> cUnzippedHash c"

definition published_categories :: "env \<Rightarrow> int \<Rightarrow> string \<Rightarrow> Categories \<Rightarrow> Categories" where
  "published_categories ev unixTime remoteDir c =
     (written_categories ev c)
       \<lparr>cZippedFile := Some (zlib_compress ev (contents (cFile (written_categories ev c)))),
        cUnzippedHash := md5_hex ev (contents (cFile (written_categories ev c))),
        cZippedHash := md5_hex ev (zlib_compress ev (contents (cFile (written_categories ev c)))),
        cRelativeFilePath := Itoa unixTime @ ''-'' @ cZippedFileName c,
        cRemoteFilePath := remoteDir @ ''/'' @ Itoa unixTime @ ''-'' @ cZippedFileName c\<rparr>"

definition categories_after :: "env \<Rightarrow> int \<Rightarrow> string \<Rightarrow> Categories \<Rightarrow> Categories" where
  "categories_after ev unixTime remoteDir c =
     (if categories_changed ev c then published_categories ev unixTime remoteDir c
      else written_categories ev c)"

definition categories_row :: "Master \<Rightarrow> Categories \<Rightarrow> string list" where
  "categories_row m c =
     [''-1'', cRelativeFilePath c, ''zlib'', cZippedHash c, cUnzippedHash c,
      Itoa (int (length (mCategoryItems m)))]"

definition categories_calls :: "env \<Rightarrow> bool \<Rightarrow> int \<Rightarrow> string \<Rightarrow> Categories option \<Rightarrow> trace" where
  "categories_calls ev public unixTime remoteDir co =
     (case co of
        None \<Rightarrow> []
      | Some c \<Rightarrow>
          if categories_changed ev c then
            upload_calls public (cStorageBucketName c)
              (cRemoteFilePath (published_categories ev unixTime remoteDir c))
              (contents (cZippedFile (published_categories ev unixTime remoteDir c)))
          else [])"

definition categories_rows_written :: "env \<Rightarrow> int \<Rightarrow> Master \<Rightarrow> string" where
  "categories_rows_written ev unixTime m =
     (case mCategories m of
        None \<Rightarrow> []
      | Some c \<Rightarrow> csv_row ev (categories_row m (categories_after ev unixTime (mRemoteDir m) c)))"


text \<open>
  A master for concrete publishes: a changed shard, an unchanged shard and a shard that is
  both changed and flagged deleted; and one with a categories snapshot.
\<close>

definition shard_changed :: Bucket where
  "shard_changed =
     (bucket_of 1 False [patch_of ''+'' ''k'' [''v'', ''w''], patch_of ''-'' ''k'' []])
       \<lparr>FileName := ''1.csv'', ZippedFileName := ''1.csv.zlib'', File := Some good_log,
        IsChanged := True\<rparr>"

definition shard_unchanged :: Bucket where
  "shard_unchanged =
     (bucket_of 2 False [patch_of ''+'' ''k'' [''v'', ''w''], patch_of ''-'' ''k'' []])
       \<lparr>FileName := ''2.csv'', ZippedFileName := ''2.csv.zlib'', File := Some good_log,
        ZippedFile := Some (CHR ''Z'' # good_log), RelativeFilePath := ''5-2.csv.zlib'',
        RemoteFilePath := ''remote/5-2.csv.zlib'', UnzippedHash := good_log,
        ZippedHash := CHR ''Z'' # good_log\<rparr>"

definition shard_deleted_changed :: Bucket where
  "shard_deleted_changed =
     (bucket_of 3 True [patch_of ''+'' ''k'' [''v'', ''w''], patch_of ''-'' ''k'' []])
       \<lparr>FileName := ''3.csv'', ZippedFileName := ''3.csv.zlib'', File := Some good_log,
        RelativeFilePath := ''5-3.csv.zlib'', RemoteFilePath := ''remote/5-3.csv.zlib'',
        IsChanged := True\<rparr>"

definition publish_master_example :: Master where
  "publish_master_example = master_of [shard_changed, shard_unchanged, shard_deleted_changed]"

definition deleted_only_master :: Master where
  "deleted_only_master = master_of [shard_deleted_changed]"

definition ok_storage :: Storage where
  "ok_storage = const_storage None []"


definition publish_example_result :: "error option \<times> Master \<times> trace" where
  "publish_example_result =
     UploadToStorageBucket ok_storage demo_env accept_all 17 ''2024-01-01'' [] publish_master_example"

text \<open>
  Two publishes of a master with one changed shard, both at the unix time 17: the second
  starts from the master and the trace that the first has left.
\<close>

definition republish_first :: "error option \<times> Master \<times> trace" where
  "republish_first =
     UploadToStorageBucket ok_storage demo_env accept_all 17 ''2024-01-01'' [] (master_of [shard_changed])"

definition republish_second :: "error option \<times> Master \<times> trace" where
  "republish_second =
     UploadToStorageBucket ok_storage demo_env accept_all 17 ''2024-01-01''
       (snd (snd republish_first)) (fst (snd republish_first))"

text \<open>
  The round-trip verification the claim speaks of, in its words: decompress the compressed
  snapshot and validate its rows again. The shards have it (\<open>VerifyZipped\<close>); no function of
  \<open>Categories\<close> does this.
\<close>

definition claimed_round_trip :: "env \<Rightarrow> Categories \<Rightarrow> error option" where
  "claimed_round_trip ev c =
     (case zlib_NewReader ev (contents (cZippedFile c)) of
        Some e \<Rightarrow> Some e
      | None \<Rightarrow> categories_rows c (csv_records ev (fst (zlib_read ev (contents (cZippedFile c))))))"

definition item_example :: CategoriesItem where
  "item_example =
     \<lparr>GetId = 7, GetCategory = ''cat'', GetSubcategory = ''sub'', GetIdentifier = ''id'',
      GetDescription = ''desc'', GetTlc = ''t'', GetSlc = ''s''\<rparr>"

definition categories_new :: Categories where
  "categories_new =
     (NewCategories ''store'' [] [] ''work'' [] [] [item_example])
       \<lparr>cFile := Some [], cZippedFile := Some []\<rparr>"

definition categories_same :: Categories where
  "categories_same =
     (NewCategories ''store'' ''5-categories.csv.zlib'' ''remote/5-categories.csv.zlib'' ''work''
        (CHR ''Z'' # demo_csv_row [''7'', ''cat'', ''sub'', ''desc''])
        (demo_csv_row [''7'', ''cat'', ''sub'', ''desc'']) [item_example])
       \<lparr>cFile := Some [], cZippedFile := Some (CHR ''Z'' # demo_csv_row [''7'', ''cat'', ''sub'', ''desc''])\<rparr>"

definition categories_master :: "Categories \<Rightarrow> Master" where
  "categories_master c = (master_of [])\<lparr>mCategories := Some c, mCategoryItems := [item_example]\<rparr>"

definition broken_codec_env :: env where
  "broken_codec_env = demo_env\<lparr>zlib_compress := (\<lambda>bs. ''garbage'')\<rparr>"


definition categories_publish_result :: "env \<Rightarrow> Categories \<Rightarrow> error option \<times> Master \<times> trace" where
  "categories_publish_result ev c =
     UploadToStorageBucket ok_storage ev accept_all 17 ''2024-01-01'' [] (categories_master c)"

section \<open>Properties of the replay\<close>

lemma compile_patches_foldl: "compile_patches list ps = foldl apply_patch list ps"
  by (induction ps arbitrary: list) simp_all

lemma compile_buckets_snd:
  "snd (compile_buckets (n, list) bs) =
     foldl apply_patch list (concat (map Patches (filter (\<lambda>b. \<not> IsDeleted b) bs)))"
  by (induction bs arbitrary: n list) (simp_all add: compile_patches_foldl)

text \<open>
  C1. \<open>CompileList\<close> replays the patches of the shards that are not flagged deleted, shard by
  shard in slice order and patch by patch in log order, into a map that starts empty; it never
  returns an error. One replay step with action \<open>+\<close> binds the key to the values, with action
  \<open>-\<close> unbinds the key (and changes nothing when the key is absent), with action \<open>*\<close> yields
  the empty map. For the two shards \<open>[Set(A,[1]), Set(B,[2]), Delete(A)]\<close> and
  \<open>[ClearAll, Set(C,[3])]\<close> the result is exactly \<open>{C: [3]}\<close>.
\<close>

theorem CompileList_replay:
  "CompileList m =
     (foldl apply_patch Map.empty (concat (map Patches (filter (\<lambda>b. \<not> IsDeleted b) (Buckets m)))), None)
   \<and> apply_patch list (patch_of ''+'' k vs) = (\<lambda>x. if x = k then Some vs else list x)
   \<and> apply_patch list (patch_of ''-'' k vs) = (\<lambda>x. if x = k then None else list x)
   \<and> dom (apply_patch list (patch_of ''-'' k vs)) = dom list - {k}
   \<and> apply_patch list (patch_of ''*'' k vs) = Map.empty
   \<and> CompileList (master_of
        [bucket_of 1 False [patch_of ''+'' ''A'' [''1''], patch_of ''+'' ''B'' [''2''], patch_of ''-'' ''A'' []],
         bucket_of 2 False [patch_of ''*'' [] [], patch_of ''+'' ''C'' [''3'']]])
      = ([''C'' \<mapsto> [''3'']], None)"
proof -
  have replay: "CompileList m =
     (foldl apply_patch Map.empty (concat (map Patches (filter (\<lambda>b. \<not> IsDeleted b) (Buckets m)))), None)"
    by (simp add: CompileList_def compile_buckets_snd)
  have set: "apply_patch list (patch_of ''+'' k vs) = (\<lambda>x. if x = k then Some vs else list x)"
    by (auto simp: apply_patch_def patch_of_def GetAction_def GetKey_def GetValues_def)
  have del: "apply_patch list (patch_of ''-'' k vs) = (\<lambda>x. if x = k then None else list x)"
    by (auto simp: apply_patch_def patch_of_def GetAction_def GetKey_def)
  have del_dom: "dom (apply_patch list (patch_of ''-'' k vs)) = dom list - {k}"
    by (auto simp: del split: if_splits)
  have clear: "apply_patch list (patch_of ''*'' k vs) = Map.empty"
    by (simp add: apply_patch_def patch_of_def GetAction_def)
  have example: "CompileList (master_of
        [bucket_of 1 False [patch_of ''+'' ''A'' [''1''], patch_of ''+'' ''B'' [''2''], patch_of ''-'' ''A'' []],
         bucket_of 2 False [patch_of ''*'' [] [], patch_of ''+'' ''C'' [''3'']]])
      = ([''C'' \<mapsto> [''3'']], None)"
    by (simp add: CompileList_def master_of_def bucket_of_def patch_of_def apply_patch_def
        GetAction_def GetKey_def GetValues_def)
  from replay set del del_dom clear example show ?thesis by blast
qed

section \<open>Properties of the redundancy estimator\<close>

lemma group_by_key_snoc:
  "group_by_key (acc @ [c]) =
     (group_by_key acc)(key c \<mapsto> (case group_by_key acc (key c) of None \<Rightarrow> [c] | Some h \<Rightarrow> h @ [c]))"
  by (rule ext) (auto simp: group_by_key_def split: list.splits)

lemma wastage_patches_groups:
  "map_of changes = group_by_key acc \<Longrightarrow>
   map_of (wastage_patches bKey pKey ps changes) =
     group_by_key (acc @ map (mk_change bKey) (enumerate pKey ps))"
proof (induction ps arbitrary: pKey changes acc)
  case Nil
  then show ?case by simp
next
  case (Cons patch rest)
  let ?c = "\<lparr>key = GetKey patch, bucketKey = bKey, patchKey = pKey\<rparr>"
  let ?changes' = "case map_of changes (GetKey patch) of
          None \<Rightarrow> AList.update (GetKey patch) [?c] changes
        | Some history \<Rightarrow> AList.update (GetKey patch) (history @ [?c]) changes"
  have "map_of ?changes' = group_by_key (acc @ [?c])"
    using Cons.prems by (simp add: group_by_key_snoc update_conv' split: option.splits)
  from Cons.IH [OF this, of "Suc pKey"] show ?case
    by (simp add: mk_change_def)
qed

lemma wastage_buckets_groups:
  "map_of changes = group_by_key acc \<Longrightarrow>
   map_of (wastage_buckets bKey bs changes) =
     group_by_key (acc @ concat (map (\<lambda>(bk, bucket). map (mk_change bk) (enumerate 0 (Patches bucket)))
        (enumerate bKey bs)))"
proof (induction bs arbitrary: bKey changes acc)
  case Nil
  then show ?case by simp
next
  case (Cons bucket rest)
  have step: "map_of (wastage_patches bKey 0 (Patches bucket) changes) =
      group_by_key (acc @ map (mk_change bKey) (enumerate 0 (Patches bucket)))"
    by (rule wastage_patches_groups [OF Cons.prems])
  from Cons.IH [OF step] show ?case by simp
qed

lemma wastage_patches_distinct:
  "distinct (map fst changes) \<Longrightarrow> distinct (map fst (wastage_patches bKey pKey ps changes))"
  by (induction ps arbitrary: pKey changes) (simp_all add: distinct_update split: option.splits)

lemma wastage_buckets_distinct:
  "distinct (map fst changes) \<Longrightarrow> distinct (map fst (wastage_buckets bKey bs changes))"
  by (induction bs arbitrary: bKey changes) (simp_all add: wastage_patches_distinct)

lemma all_changes_alt:
  "all_changes m =
     concat (map (\<lambda>(bk, bucket). map (mk_change bk) (enumerate 0 (Patches bucket)))
        (enumerate 0 (Buckets m)))"
  by (simp add: all_changes_def mk_change_def)

lemma group_by_key_Nil: "group_by_key [] = Map.empty"
  by (rule ext) (simp add: group_by_key_def)

lemma changes_grouped:
  "map_of (wastage_buckets 0 (Buckets m) []) = group_by_key (all_changes m)"
  using wastage_buckets_groups [of "[]" "[]" 0 "Buckets m"]
  by (simp add: group_by_key_Nil all_changes_alt)

lemma changes_distinct: "distinct (map fst (wastage_buckets 0 (Buckets m) []))"
  by (rule wastage_buckets_distinct) simp

lemma length_collect_wastage:
  "length (collect_wastage al w) = length w + sum_list (map (\<lambda>e. wasted_of (length (snd e))) al)"
proof (induction al arbitrary: w)
  case Nil
  then show ?case by simp
next
  case (Cons e al)
  obtain k history where e: "e = (k, history)" by (cases e)
  have "even (length history) \<longleftrightarrow> length history mod 2 = 0" by presburger
  then show ?case
    by (simp add: e Cons.IH wasted_of_def)
qed

lemma map_key_enumerate:
  "map (key \<circ> mk_change bk) (enumerate n ps) = map GetKey ps"
  by (induction ps arbitrary: n) (simp_all add: mk_change_def)

lemma map_key_concat_enumerate:
  "map key (concat (map (\<lambda>(bk, bucket). map (mk_change bk) (enumerate 0 (Patches bucket)))
        (enumerate n bs))) = map GetKey (concat (map Patches bs))"
  by (induction bs arbitrary: n) (simp_all add: map_key_enumerate)

lemma map_key_all_changes: "map key (all_changes m) = map GetKey (all_patches m)"
  by (simp add: all_changes_alt all_patches_def map_key_concat_enumerate)

lemma length_filter_map: "length (filter P (map f xs)) = length (filter (\<lambda>x. P (f x)) xs)"
  by (induction xs) simp_all

lemma occurrences_all_changes:
  "occurrences m k = length (filter (\<lambda>c. key c = k) (all_changes m))"
proof -
  have "length (filter (\<lambda>c. key c = k) (all_changes m)) =
        length (filter (\<lambda>x. x = k) (map key (all_changes m)))"
    by (simp only: length_filter_map)
  also have "\<dots> = length (filter (\<lambda>x. x = k) (map GetKey (all_patches m)))"
    by (simp add: map_key_all_changes)
  also have "\<dots> = occurrences m k"
    by (simp only: occurrences_def length_filter_map)
  finally show ?thesis by simp
qed

lemma group_by_key_length:
  "group_by_key cs k = Some h \<Longrightarrow> length h = length (filter (\<lambda>c. key c = k) cs)"
  by (auto simp: group_by_key_def split: list.splits)

lemma dom_group_by_key: "dom (group_by_key cs) = set (map key cs)"
  by (auto simp: group_by_key_def dom_def filter_empty_conv split: list.splits)

lemma changes_keys:
  "mset (map fst (wastage_buckets 0 (Buckets m) [])) = mset (distinct_keys m)"
proof -
  let ?al = "wastage_buckets 0 (Buckets m) []"
  have "set (map fst ?al) = dom (map_of ?al)"
    by (simp add: dom_map_of_conv_image_fst)
  also have "\<dots> = set (map GetKey (all_patches m))"
    by (simp add: changes_grouped dom_group_by_key map_key_all_changes del: set_map)
  finally have "set (map fst ?al) = set (distinct_keys m)"
    by (simp add: distinct_keys_def)
  moreover have "distinct (distinct_keys m)" by (simp add: distinct_keys_def)
  ultimately show ?thesis
    using changes_distinct [of m] by (simp only: set_eq_iff_mset_eq_distinct)
qed

lemma changes_entry_length:
  assumes "e \<in> set (wastage_buckets 0 (Buckets m) [])"
  shows "length (snd e) = occurrences m (fst e)"
proof -
  have "map_of (wastage_buckets 0 (Buckets m) []) (fst e) = Some (snd e)"
    using assms map_of_eq_Some_iff [OF changes_distinct, of m "fst e" "snd e"] by simp
  then show ?thesis
    by (simp add: changes_grouped occurrences_all_changes group_by_key_length)
qed

lemma wastage_total:
  assumes "mset al = mset (wastage_buckets 0 (Buckets m) [])"
  shows "length (collect_wastage al []) = totalWasted m"
proof -
  let ?ch = "wastage_buckets 0 (Buckets m) []"
  have "sum_list (map (\<lambda>e. wasted_of (length (snd e))) al) =
        sum_mset (image_mset (\<lambda>e. wasted_of (length (snd e))) (mset al))"
    by (metis mset_map sum_mset_sum_list)
  also have "\<dots> = sum_mset (image_mset (\<lambda>e. wasted_of (length (snd e))) (mset ?ch))"
    by (simp add: assms)
  also have "\<dots> = sum_list (map (\<lambda>e. wasted_of (length (snd e))) ?ch)"
    by (metis mset_map sum_mset_sum_list)
  also have "\<dots> = sum_list (map (\<lambda>e. wasted_of (occurrences m (fst e))) ?ch)"
    by (rule arg_cong [where f = sum_list]) (simp add: changes_entry_length)
  also have "\<dots> = sum_list (map (\<lambda>k. wasted_of (occurrences m k)) (map fst ?ch))"
    by (simp add: comp_def)
  also have "\<dots> = sum_mset (image_mset (\<lambda>k. wasted_of (occurrences m k)) (mset (map fst ?ch)))"
    by (metis mset_map sum_mset_sum_list)
  also have "\<dots> = sum_mset (image_mset (\<lambda>k. wasted_of (occurrences m k)) (mset (distinct_keys m)))"
    by (simp only: changes_keys)
  also have "\<dots> = totalWasted m"
    unfolding totalWasted_def by (metis mset_map sum_mset_sum_list)
  finally show ?thesis by (simp add: length_collect_wastage)
qed

lemma changes_length: "length (wastage_buckets 0 (Buckets m) []) = totalDistinctKeys m"
proof -
  have "size (mset (map fst (wastage_buckets 0 (Buckets m) []))) = size (mset (distinct_keys m))"
    by (simp only: changes_keys)
  then show ?thesis by (simp add: totalDistinctKeys_def)
qed


text \<open>
  C2 (as amended). For every master with at least one patch, and whatever order the runtime
  picks for ranging over the map: the first pass groups the patches of all shards, deleted
  ones included, by key, each group in encounter order; the number of wasted entries is the sum
  over the distinct keys of N when the key's count N is even and above one, N - 1 when it is odd
  and above one, 0 when it is one; the map has one entry per distinct key; and the result is
  the float64 quotient of the two lengths, times 100, converted to \<open>int\<close>, which truncates.
\<close>

theorem CalculateWastage_truncates:
  assumes "mset (range_order (wastage_buckets 0 (Buckets m) [])) = mset (wastage_buckets 0 (Buckets m) [])"
    and "all_patches m \<noteq> []"
  shows "map_of (wastage_buckets 0 (Buckets m) []) = group_by_key (all_changes m)
       \<and> length (collect_wastage (range_order (wastage_buckets 0 (Buckets m) [])) []) = totalWasted m
       \<and> length (wastage_buckets 0 (Buckets m) []) = totalDistinctKeys m
       \<and> 0 < totalDistinctKeys m
       \<and> CalculateWastage range_order m = (wastePercent (totalWasted m) (totalDistinctKeys m), None)"
proof -
  have "distinct_keys m \<noteq> []"
    using assms(2) by (simp add: distinct_keys_def)
  then have "0 < totalDistinctKeys m"
    by (simp add: totalDistinctKeys_def)
  then show ?thesis
    by (simp add: CalculateWastage_def Let_def changes_grouped wastage_total [OF assms(1)]
        changes_length)
qed

theorem CalculateWastage_truncates_witness:
  "mset (rev (wastage_buckets 0 (Buckets wastage_example) [])) = mset (wastage_buckets 0 (Buckets wastage_example) [])
   \<and> all_patches wastage_example \<noteq> []
   \<and> totalWasted wastage_example = 2
   \<and> totalDistinctKeys wastage_example = 3
   \<and> CalculateWastage rev wastage_example = (Some 66, None)"
proof -
  have p: "mset (rev (wastage_buckets 0 (Buckets wastage_example) [])) = mset (wastage_buckets 0 (Buckets wastage_example) [])"
    by simp
  have ne: "all_patches wastage_example \<noteq> []"
    by (simp add: all_patches_def wastage_example_def master_of_def bucket_of_def)
  have w: "totalWasted wastage_example = 2" by code_simp
  have k: "totalDistinctKeys wastage_example = 3" by code_simp
  have v: "wastePercent 2 3 = Some 66" by code_simp
  from CalculateWastage_truncates [of rev wastage_example, OF p ne] p ne w k v show ?thesis by simp
qed

text \<open>
  The claim as stated fails: with keys \<open>a, b, a, c\<close> two entries are wasted over three
  distinct keys; the code returns 66, and \<open>round (100 * 2 / 3)\<close> is 67.
\<close>

theorem CalculateWastage_round_counterexample:
  "all_patches wastage_example \<noteq> []
   \<and> fst (CalculateWastage id wastage_example) = Some 66
   \<and> spec_percentage wastage_example = 67"
proof -
  have ne: "all_patches wastage_example \<noteq> []"
    by (simp add: all_patches_def wastage_example_def master_of_def bucket_of_def)
  have c: "fst (CalculateWastage id wastage_example) = Some 66" by code_simp
  have s: "spec_percentage wastage_example = 67" by code_simp
  from ne c s show ?thesis by blast
qed

section \<open>Properties of the shard operations\<close>

lemma checksumReadSeeker_Some: "checksumReadSeeker ev (Some bs) = Inr (md5_hex ev bs)"
  by (simp add: checksumReadSeeker_def SeekStart_def contents_def)

lemma checksumReadSeeker_None: "checksumReadSeeker ev None = Inl ErrInvalidFile"
  by (simp add: checksumReadSeeker_def SeekStart_def)

lemma Unzip_mismatch:
  "ZippedFile b = Some zs \<Longrightarrow> md5_hex ev zs \<noteq> ZippedHash b \<Longrightarrow>
   Unzip ev b = (Some (InvalidZippedChecksum (RemoteFilePath b)), b)"
  by (auto simp: Unzip_def checksumReadSeeker_Some)

lemma Unzip_match:
  "ZippedFile b = Some zs \<Longrightarrow> md5_hex ev zs = ZippedHash b \<Longrightarrow> zlib_NewReader ev zs = None \<Longrightarrow>
   File b = Some old \<Longrightarrow>
   Unzip ev b = (snd (zlib_read ev zs), b\<lparr>File := Some (fst (zlib_read ev zs))\<rparr>)"
  by (simp add: Unzip_def checksumReadSeeker_Some SeekStart_def Truncate_def contents_def)

lemma Unzip_changed:
  "File (snd (Unzip ev b)) \<noteq> File b \<Longrightarrow> \<exists>zs. ZippedFile b = Some zs \<and> md5_hex ev zs = ZippedHash b"
  by (cases "ZippedFile b")
     (auto simp: Unzip_def checksumReadSeeker_Some checksumReadSeeker_None SeekStart_def
        Truncate_def split: if_splits option.splits sum.splits)

lemma Unzip_ok:
  "fst (Unzip ev b) = None \<Longrightarrow>
   \<exists>zs. ZippedFile b = Some zs \<and> md5_hex ev zs = ZippedHash b \<and>
        snd (Unzip ev b) = b\<lparr>File := Some (fst (zlib_read ev zs))\<rparr>"
  by (cases "ZippedFile b")
     (auto simp: Unzip_def checksumReadSeeker_Some checksumReadSeeker_None SeekStart_def
        Truncate_def contents_def split: if_splits option.splits sum.splits)

text \<open>
  C4. \<open>Unzip\<close> takes the digest of the compressed bytes first. If it differs from the recorded
  \<open>ZippedHash\<close> the result is the integrity error and the shard, staging file included, is as
  it was. The staging file changes only if the digest matched; and when the digest matches,
  the stream opens and the staging file is open, the staging file is replaced by the
  decompressed bytes. A run without error has replaced the staging file by exactly those.
\<close>

theorem Unzip_verifies_before_decompressing:
  "(ZippedFile b = Some zs \<and> md5_hex ev zs \<noteq> ZippedHash b \<longrightarrow>
      Unzip ev b = (Some (InvalidZippedChecksum (RemoteFilePath b)), b))
   \<and> (File (snd (Unzip ev b)) \<noteq> File b \<longrightarrow>
        (\<exists>zs'. ZippedFile b = Some zs' \<and> md5_hex ev zs' = ZippedHash b))
   \<and> (ZippedFile b = Some zs \<and> md5_hex ev zs = ZippedHash b \<and> zlib_NewReader ev zs = None
        \<and> File b = Some old \<longrightarrow>
        Unzip ev b = (snd (zlib_read ev zs), b\<lparr>File := Some (fst (zlib_read ev zs))\<rparr>))
   \<and> (fst (Unzip ev b) = None \<longrightarrow>
        (\<exists>zs'. ZippedFile b = Some zs' \<and> md5_hex ev zs' = ZippedHash b \<and>
           snd (Unzip ev b) = b\<lparr>File := Some (fst (zlib_read ev zs'))\<rparr>))"
  using Unzip_mismatch [of b zs ev] Unzip_changed [of ev b] Unzip_match [of b zs ev old]
    Unzip_ok [of ev b]
  by blast

theorem Unzip_verifies_before_decompressing_witness:
  "ZippedFile unzip_bad = Some ''Z+,k,v'' \<and> md5_hex demo_env ''Z+,k,v'' \<noteq> ZippedHash unzip_bad
   \<and> Unzip demo_env unzip_bad = (Some (InvalidZippedChecksum (RemoteFilePath unzip_bad)), unzip_bad)
   \<and> File (snd (Unzip demo_env unzip_bad)) = Some ''+,old''
   \<and> ZippedFile unzip_good = Some ''Z+,k,v'' \<and> md5_hex demo_env ''Z+,k,v'' = ZippedHash unzip_good
   \<and> zlib_NewReader demo_env ''Z+,k,v'' = None \<and> File unzip_good = Some ''+,old''
   \<and> Unzip demo_env unzip_good = (None, unzip_good\<lparr>File := Some ''+,k,v''\<rparr>)
   \<and> File (snd (Unzip demo_env unzip_good)) \<noteq> File unzip_good
   \<and> fst (Unzip demo_env unzip_good) = None"
proof -
  have bad: "ZippedFile unzip_bad = Some ''Z+,k,v'' \<and> md5_hex demo_env ''Z+,k,v'' \<noteq> ZippedHash unzip_bad"
    by (simp add: unzip_bad_def bucket_of_def demo_env_def)
  have good: "ZippedFile unzip_good = Some ''Z+,k,v'' \<and> md5_hex demo_env ''Z+,k,v'' = ZippedHash unzip_good
     \<and> zlib_NewReader demo_env ''Z+,k,v'' = None \<and> File unzip_good = Some ''+,old''"
    by (simp add: unzip_good_def bucket_of_def demo_env_def)
  have rd: "zlib_read demo_env ''Z+,k,v'' = (''+,k,v'', None)"
    by (simp add: demo_env_def)
  have old: "File unzip_bad = Some ''+,old''"
    by (simp add: unzip_bad_def bucket_of_def)
  from Unzip_verifies_before_decompressing [of unzip_bad "''Z+,k,v''" demo_env "''+,old''"] bad
  have 1: "Unzip demo_env unzip_bad = (Some (InvalidZippedChecksum (RemoteFilePath unzip_bad)), unzip_bad)"
    by blast
  from Unzip_verifies_before_decompressing [of unzip_good "''Z+,k,v''" demo_env "''+,old''"] good
  have 2: "Unzip demo_env unzip_good = (None, unzip_good\<lparr>File := Some ''+,k,v''\<rparr>)"
    by (simp add: rd)
  from bad good 1 2 old show ?thesis by simp
qed

lemma add_rows_Nil: "add_rows b [] = b"
  by (simp add: add_rows_def)

lemma add_rows_Cons: "add_rows b (line # rest) = add_rows (add_rows b [line]) rest"
  by (simp add: add_rows_def)

lemma verify_rows_step:
  "Validation line b = None \<Longrightarrow> 2 \<le> length line \<Longrightarrow>
   verify_rows Validation b (line # rest) = verify_rows Validation (add_rows b [line]) rest"
  by (simp add: add_rows_def row_patch_def)

lemma all_less_Suc_split: "(\<forall>i<Suc n. P i) \<longleftrightarrow> P 0 \<and> (\<forall>i<n. P (Suc i))"
  by (metis less_Suc_eq_0_disj Suc_less_eq zero_less_Suc)

lemma verify_rows_ok_iff:
  "verify_rows Validation b rows = (None, b') \<longleftrightarrow>
     b' = add_rows b rows \<and>
     (\<forall>i<length rows. 2 \<le> length (rows ! i) \<and> Validation (rows ! i) (add_rows b (take i rows)) = None)"
proof (induction rows arbitrary: b)
  case Nil
  then show ?case by (auto simp: add_rows_Nil)
next
  case (Cons line rest)
  show ?case
  proof (cases "Validation line b = None \<and> 2 \<le> length line")
    case True
    then have "verify_rows Validation b (line # rest) = verify_rows Validation (add_rows b [line]) rest"
      by (intro verify_rows_step) auto
    moreover have "\<And>i. add_rows (add_rows b [line]) (take i rest) = add_rows b (take (Suc i) (line # rest))"
      by (simp add: add_rows_def)
    moreover have "add_rows (add_rows b [line]) rest = add_rows b (line # rest)"
      by (simp add: add_rows_def)
    ultimately show ?thesis
      using True by (simp add: Cons.IH all_less_Suc_split add_rows_Nil)
  next
    case False
    then have "fst (verify_rows Validation b (line # rest)) \<noteq> None"
      by (auto split: option.splits)
    moreover have "\<not> (2 \<le> length ((line # rest) ! 0) \<and>
        Validation ((line # rest) ! 0) (add_rows b (take 0 (line # rest))) = None)"
      using False by (auto simp: add_rows_Nil)
    ultimately show ?thesis by fastforce
  qed
qed

lemma verify_rows_short:
  "\<exists>line\<in>set rows. length line < 2 \<Longrightarrow> fst (verify_rows Validation b rows) \<noteq> None"
proof (induction rows arbitrary: b)
  case Nil
  then show ?case by simp
next
  case (Cons line rest)
  show ?case
  proof (cases "Validation line b = None \<and> 2 \<le> length line")
    case True
    then have "\<exists>l\<in>set rest. length l < 2" using Cons.prems by auto
    from Cons.IH [OF this] True show ?thesis by (simp add: verify_rows_step)
  next
    case False
    then show ?thesis by (auto split: option.splits)
  qed
qed

lemma verify_rows_append:
  "verify_rows Validation b pre = (None, b1) \<Longrightarrow>
   verify_rows Validation b (pre @ post) = verify_rows Validation b1 post"
proof (induction pre arbitrary: b)
  case Nil
  then show ?case by simp
next
  case (Cons line rest)
  then show ?case by (auto split: option.splits if_splits)
qed

lemma verify_rows_first_short:
  assumes "verify_rows Validation b pre = (None, b1)"
    and "Validation line b1 = None" and "length line < 2"
  shows "verify_rows Validation b (pre @ line # post) = (Some (RowTooShort (RemoteFilePath b)), b1)"
proof -
  have "b1 = add_rows b pre" using assms(1) by (simp add: verify_rows_ok_iff)
  then have "RemoteFilePath b1 = RemoteFilePath b" by (simp add: add_rows_def)
  then show ?thesis
    using assms by (simp add: verify_rows_append)
qed

lemma verify_rows_File: "File (snd (verify_rows Validation b rows)) = File b"
  by (induction rows arbitrary: b) (auto split: option.splits)

lemma VerifyUnzipped_rows:
  assumes "File b = Some bs" and "md5_hex ev bs = UnzippedHash b"
  shows "VerifyUnzipped ev Validation b = verify_rows Validation b (csv_records ev bs)"
proof -
  obtain e b' where r: "verify_rows Validation b (csv_records ev bs) = (e, b')"
    by (cases "verify_rows Validation b (csv_records ev bs)")
  have "File b' = Some bs"
    using verify_rows_File [of Validation b "csv_records ev bs"] r assms(1) by simp
  then show ?thesis
    using assms r
    by (cases e) (simp_all add: VerifyUnzipped_def checksumReadSeeker_Some SeekStart_def contents_def)
qed

lemma demo_records_good_log:
  "csv_records demo_env good_log = [[''+'', ''k'', ''v'', ''w''], [''-'', ''k'']]"
  by (simp add: demo_env_def demo_csv_records_def good_log_def demo_csv_row_def strings_Join_def)

lemma demo_records_short_log:
  "csv_records demo_env short_log = [[''+'', ''k'', ''v'']] @ [''bad''] # [[''-'', ''k'']]"
  by (simp add: demo_env_def demo_csv_records_def short_log_def demo_csv_row_def strings_Join_def)

lemma verify_rows_first_rejected:
  assumes "verify_rows Validation b pre = (None, b1)"
    and "Validation line b1 = Some ve"
  shows "verify_rows Validation b (pre @ line # post) = (Some ve, b1)"
  using assms by (simp add: verify_rows_append)

text \<open>
  C5 (as amended). Let the staging file pass its checksum and let \<open>rows\<close> be its records in
  file order. \<open>VerifyUnzipped\<close> passes each row to the validator first, with the shard as the
  rows before it have left it, and checks the number of columns second. It succeeds exactly
  when every row is accepted by the validator and has at least two columns; the shard then has
  one more patch per row, in file order, each with the first column as action, the second as
  key and the remaining columns (none for a two-column row) as values. A row with fewer than
  two columns always makes the step fail. The first row that the validator rejects ends the
  step with the validator's error, whatever its number of columns; the first row with fewer
  than two columns ends it with the malformed-row error when the validator has accepted that
  row. In both cases the shard holds the patches of the rows before that row.
\<close>

theorem VerifyUnzipped_materializes_rows:
  assumes "File b = Some bs" and "md5_hex ev bs = UnzippedHash b"
  shows
    "(VerifyUnzipped ev Validation b = (None, b') \<longleftrightarrow>
        b' = b\<lparr>Patches := Patches b @ map row_patch (csv_records ev bs)\<rparr> \<and>
        (\<forall>i<length (csv_records ev bs).
            2 \<le> length (csv_records ev bs ! i) \<and>
            Validation (csv_records ev bs ! i)
              (b\<lparr>Patches := Patches b @ map row_patch (take i (csv_records ev bs))\<rparr>) = None))
     \<and> ((\<exists>line\<in>set (csv_records ev bs). length line < 2) \<longrightarrow>
          fst (VerifyUnzipped ev Validation b) \<noteq> None)
     \<and> (csv_records ev bs = pre @ line # post \<and>
          (\<forall>i<length pre. 2 \<le> length (pre ! i) \<and>
             Validation (pre ! i) (b\<lparr>Patches := Patches b @ map row_patch (take i pre)\<rparr>) = None) \<and>
          Validation line (b\<lparr>Patches := Patches b @ map row_patch pre\<rparr>) = Some ve \<longrightarrow>
          VerifyUnzipped ev Validation b =
            (Some ve, b\<lparr>Patches := Patches b @ map row_patch pre\<rparr>))
     \<and> (csv_records ev bs = pre @ line # post \<and> length line < 2 \<and>
          (\<forall>i<length pre. 2 \<le> length (pre ! i) \<and>
             Validation (pre ! i) (b\<lparr>Patches := Patches b @ map row_patch (take i pre)\<rparr>) = None) \<and>
          Validation line (b\<lparr>Patches := Patches b @ map row_patch pre\<rparr>) = None \<longrightarrow>
          VerifyUnzipped ev Validation b =
            (Some (RowTooShort (RemoteFilePath b)), b\<lparr>Patches := Patches b @ map row_patch pre\<rparr>))
     \<and> row_patch (a # k # vs) = \<lparr>Action = a, Key = k, Values = vs\<rparr>"
proof -
  note eq = VerifyUnzipped_rows [OF assms, of Validation]
  have 1: "VerifyUnzipped ev Validation b = (None, b') \<longleftrightarrow>
        b' = b\<lparr>Patches := Patches b @ map row_patch (csv_records ev bs)\<rparr> \<and>
        (\<forall>i<length (csv_records ev bs).
            2 \<le> length (csv_records ev bs ! i) \<and>
            Validation (csv_records ev bs ! i)
              (b\<lparr>Patches := Patches b @ map row_patch (take i (csv_records ev bs))\<rparr>) = None)"
    unfolding eq verify_rows_ok_iff add_rows_def ..
  have 2: "(\<exists>line\<in>set (csv_records ev bs). length line < 2) \<longrightarrow>
          fst (VerifyUnzipped ev Validation b) \<noteq> None"
    unfolding eq using verify_rows_short [of "csv_records ev bs" Validation b] by blast
  have 3: "csv_records ev bs = pre @ line # post \<and>
          (\<forall>i<length pre. 2 \<le> length (pre ! i) \<and>
             Validation (pre ! i) (b\<lparr>Patches := Patches b @ map row_patch (take i pre)\<rparr>) = None) \<and>
          Validation line (b\<lparr>Patches := Patches b @ map row_patch pre\<rparr>) = Some ve \<longrightarrow>
          VerifyUnzipped ev Validation b =
            (Some ve, b\<lparr>Patches := Patches b @ map row_patch pre\<rparr>)"
  proof (intro impI, elim conjE)
    assume rows: "csv_records ev bs = pre @ line # post"
      and pre: "\<forall>i<length pre. 2 \<le> length (pre ! i) \<and>
             Validation (pre ! i) (b\<lparr>Patches := Patches b @ map row_patch (take i pre)\<rparr>) = None"
      and line: "Validation line (b\<lparr>Patches := Patches b @ map row_patch pre\<rparr>) = Some ve"
    have "verify_rows Validation b pre = (None, add_rows b pre)"
      using pre by (simp add: verify_rows_ok_iff add_rows_def)
    from verify_rows_first_rejected [OF this, of line ve post] line
    show "VerifyUnzipped ev Validation b =
            (Some ve, b\<lparr>Patches := Patches b @ map row_patch pre\<rparr>)"
      unfolding eq rows by (simp add: add_rows_def)
  qed
  have 4: "csv_records ev bs = pre @ line # post \<and> length line < 2 \<and>
          (\<forall>i<length pre. 2 \<le> length (pre ! i) \<and>
             Validation (pre ! i) (b\<lparr>Patches := Patches b @ map row_patch (take i pre)\<rparr>) = None) \<and>
          Validation line (b\<lparr>Patches := Patches b @ map row_patch pre\<rparr>) = None \<longrightarrow>
          VerifyUnzipped ev Validation b =
            (Some (RowTooShort (RemoteFilePath b)), b\<lparr>Patches := Patches b @ map row_patch pre\<rparr>)"
  proof (intro impI, elim conjE)
    assume rows: "csv_records ev bs = pre @ line # post" and short: "length line < 2"
      and pre: "\<forall>i<length pre. 2 \<le> length (pre ! i) \<and>
             Validation (pre ! i) (b\<lparr>Patches := Patches b @ map row_patch (take i pre)\<rparr>) = None"
      and line: "Validation line (b\<lparr>Patches := Patches b @ map row_patch pre\<rparr>) = None"
    have "verify_rows Validation b pre = (None, add_rows b pre)"
      using pre by (simp add: verify_rows_ok_iff add_rows_def)
    from verify_rows_first_short [OF this _ short, of post] line
    show "VerifyUnzipped ev Validation b =
            (Some (RowTooShort (RemoteFilePath b)), b\<lparr>Patches := Patches b @ map row_patch pre\<rparr>)"
      unfolding eq rows by (simp add: add_rows_def)
  qed
  have 5: "row_patch (a # k # vs) = \<lparr>Action = a, Key = k, Values = vs\<rparr>"
    by (simp add: row_patch_def)
  from 1 2 3 4 5 show ?thesis by blast
qed

theorem VerifyUnzipped_materializes_rows_witness:
  "File verify_good = Some good_log \<and> md5_hex demo_env good_log = UnzippedHash verify_good
   \<and> VerifyUnzipped demo_env accept_all verify_good =
        (None, verify_good\<lparr>Patches := [patch_of ''+'' ''k'' [''v'', ''w''], patch_of ''-'' ''k'' []]\<rparr>)
   \<and> File verify_short = Some short_log \<and> md5_hex demo_env short_log = UnzippedHash verify_short
   \<and> VerifyUnzipped demo_env accept_all verify_short =
        (Some (RowTooShort (RemoteFilePath verify_short)),
         verify_short\<lparr>Patches := [patch_of ''+'' ''k'' [''v'']]\<rparr>)
   \<and> VerifyUnzipped demo_env reject_short verify_short =
        (Some (ValidationError ''short row''),
         verify_short\<lparr>Patches := [patch_of ''+'' ''k'' [''v'']]\<rparr>)
   \<and> fst (VerifyUnzipped demo_env accept_all verify_short) \<noteq> None"
proof -
  have g: "File verify_good = Some good_log" "md5_hex demo_env good_log = UnzippedHash verify_good"
    by (simp_all add: verify_good_def bucket_of_def demo_env_def)
  have s: "File verify_short = Some short_log" "md5_hex demo_env short_log = UnzippedHash verify_short"
    by (simp_all add: verify_short_def bucket_of_def demo_env_def)
  have pg: "Patches verify_good = []" and ps: "Patches verify_short = []"
    by (simp_all add: verify_good_def verify_short_def bucket_of_def)
  from VerifyUnzipped_materializes_rows [OF g, where Validation = accept_all and
      b' = "verify_good\<lparr>Patches := [patch_of ''+'' ''k'' [''v'', ''w''], patch_of ''-'' ''k'' []]\<rparr>"]
  have 1: "VerifyUnzipped demo_env accept_all verify_good =
        (None, verify_good\<lparr>Patches := [patch_of ''+'' ''k'' [''v'', ''w''], patch_of ''-'' ''k'' []]\<rparr>)"
    by (simp add: demo_records_good_log pg row_patch_def patch_of_def accept_all_def
        all_less_Suc_split numeral_2_eq_2)
  from VerifyUnzipped_materializes_rows [OF s, where Validation = accept_all and
      pre = "[[''+'', ''k'', ''v'']]" and line = "[''bad'']" and post = "[[''-'', ''k'']]"]
  have 2: "VerifyUnzipped demo_env accept_all verify_short =
        (Some (RowTooShort (RemoteFilePath verify_short)),
         verify_short\<lparr>Patches := [patch_of ''+'' ''k'' [''v'']]\<rparr>)"
    by (simp add: demo_records_short_log ps row_patch_def patch_of_def accept_all_def)
  from VerifyUnzipped_materializes_rows [OF s, where Validation = reject_short and
      pre = "[[''+'', ''k'', ''v'']]" and line = "[''bad'']" and post = "[[''-'', ''k'']]"
      and ve = "ValidationError ''short row''"]
  have 3: "VerifyUnzipped demo_env reject_short verify_short =
        (Some (ValidationError ''short row''),
         verify_short\<lparr>Patches := [patch_of ''+'' ''k'' [''v'']]\<rparr>)"
    by (simp add: demo_records_short_log ps row_patch_def patch_of_def reject_short_def)
  from g s 1 2 3 show ?thesis by simp
qed

text \<open>
  The claim as stated fails when the validator itself rejects a row with fewer than two
  columns: the validator is asked first, so the step ends with the validator's error and not
  with the malformed-row error.
\<close>

theorem VerifyUnzipped_validator_first_counterexample:
  "File verify_short = Some short_log
   \<and> md5_hex demo_env short_log = UnzippedHash verify_short
   \<and> csv_records demo_env short_log = [[''+'', ''k'', ''v''], [''bad''], [''-'', ''k'']]
   \<and> length [''bad''] < 2
   \<and> VerifyUnzipped demo_env reject_short verify_short =
        (Some (ValidationError ''short row''),
         verify_short\<lparr>Patches := [patch_of ''+'' ''k'' [''v'']]\<rparr>)
   \<and> fst (VerifyUnzipped demo_env reject_short verify_short)
        \<noteq> Some (RowTooShort (RemoteFilePath verify_short))"
proof -
  have f: "File verify_short = Some short_log"
    and h: "md5_hex demo_env short_log = UnzippedHash verify_short"
    and p: "Patches verify_short = []"
    by (simp_all add: verify_short_def bucket_of_def demo_env_def)
  have rows: "csv_records demo_env short_log = [[''+'', ''k'', ''v''], [''bad''], [''-'', ''k'']]"
    using demo_records_short_log by simp
  have run: "VerifyUnzipped demo_env reject_short verify_short =
        (Some (ValidationError ''short row''),
         verify_short\<lparr>Patches := [patch_of ''+'' ''k'' [''v'']]\<rparr>)"
    unfolding VerifyUnzipped_rows [OF f h] rows
    by (simp add: reject_short_def patch_of_def p)
  from f h rows run show ?thesis by simp
qed

lemma Bucket_Download_fetch:
  assumes "ZippedFile b = Some old"
  shows "Bucket_Download st ev Validation tr b =
     (let r = st tr (CallDownloadWriter (StorageBucketName b) (RemoteFilePath b));
          tr' = tr @ [CallDownloadWriter (StorageBucketName b) (RemoteFilePath b)];
          b1 = b\<lparr>ZippedFile := Some (r_bytes r)\<rparr>
      in case r_error r of
           None \<Rightarrow>
             (case Unzip ev b1 of
                (Some e, b2) \<Rightarrow> (Some e, b2, tr')
              | (None, b2) \<Rightarrow> (case VerifyUnzipped ev Validation b2 of (e', b3) \<Rightarrow> (e', b3, tr')))
         | Some e \<Rightarrow>
             if errors_Is_ErrObjectNotExist e then
               (case Unzip ev b1 of
                  (Some e, b2) \<Rightarrow> (Some e, b2, tr')
                | (None, b2) \<Rightarrow> (case VerifyUnzipped ev Validation b2 of (e', b3) \<Rightarrow> (e', b3, tr')))
             else (Some e, b1, tr'))"
  using assms
  by (auto simp: Bucket_Download_def Truncate_def SeekStart_def call_storage_def Let_def
      split: option.splits prod.splits)

lemma Unzip_ok_iff:
  assumes "ZippedFile b = Some zs"
  shows "Unzip ev b = (None, b2) \<longleftrightarrow>
     File b \<noteq> None \<and> md5_hex ev zs = ZippedHash b \<and> zlib_NewReader ev zs = None \<and>
     snd (zlib_read ev zs) = None \<and> b2 = b\<lparr>File := Some (fst (zlib_read ev zs))\<rparr>"
proof (cases "md5_hex ev zs = ZippedHash b")
  case False
  then show ?thesis using Unzip_mismatch [OF assms, of ev] by auto
next
  case True
  show ?thesis
  proof (cases "zlib_NewReader ev zs")
    case (Some ze)
    then show ?thesis
      using assms True by (simp add: Unzip_def checksumReadSeeker_Some SeekStart_def contents_def)
  next
    case None
    show ?thesis
    proof (cases "File b")
      case noFile: None
      then show ?thesis
        using assms True None
        by (simp add: Unzip_def checksumReadSeeker_Some SeekStart_def Truncate_def contents_def)
    next
      case (Some oldf)
      then show ?thesis
        using Unzip_match [OF assms True None Some] True None by (auto simp: prod_eq_iff)
    qed
  qed
qed

lemma VerifyUnzipped_mismatch:
  "File b = Some bs \<Longrightarrow> md5_hex ev bs \<noteq> UnzippedHash b \<Longrightarrow>
   VerifyUnzipped ev Validation b = (Some (InvalidUnzippedChecksum (RemoteFilePath b)), b)"
  by (auto simp: VerifyUnzipped_def checksumReadSeeker_Some)

lemma VerifyUnzipped_ok_iff:
  assumes "File b = Some bs"
  shows "VerifyUnzipped ev Validation b = (None, b') \<longleftrightarrow>
     md5_hex ev bs = UnzippedHash b \<and>
     (\<forall>i<length (csv_records ev bs).
         2 \<le> length (csv_records ev bs ! i) \<and>
         Validation (csv_records ev bs ! i)
           (b\<lparr>Patches := Patches b @ map row_patch (take i (csv_records ev bs))\<rparr>) = None) \<and>
     b' = b\<lparr>Patches := Patches b @ map row_patch (csv_records ev bs)\<rparr>"
proof (cases "md5_hex ev bs = UnzippedHash b")
  case False
  then show ?thesis using VerifyUnzipped_mismatch [OF assms, of ev Validation] by auto
next
  case True
  show ?thesis
    unfolding VerifyUnzipped_rows [OF assms True] verify_rows_ok_iff add_rows_def
    using True by auto
qed

lemma Bucket_Download_ok_iff:
  assumes "ZippedFile b = Some old"
  shows "Bucket_Download st ev Validation tr b = (None, b', tr'') \<longleftrightarrow>
     (let r = st tr (CallDownloadWriter (StorageBucketName b) (RemoteFilePath b));
          b1 = b\<lparr>ZippedFile := Some (r_bytes r)\<rparr>
      in tr'' = tr @ [CallDownloadWriter (StorageBucketName b) (RemoteFilePath b)] \<and>
         (r_error r = None \<or> (\<exists>e'. r_error r = Some e' \<and> errors_Is_ErrObjectNotExist e')) \<and>
         (\<exists>b2. Unzip ev b1 = (None, b2) \<and> VerifyUnzipped ev Validation b2 = (None, b')))"
  unfolding Bucket_Download_fetch [OF assms] Let_def
  by (auto split: option.splits prod.splits)

text \<open>
  C6 (as amended). Let the compressed file of the shard be open. \<open>Download\<close> empties it and
  lets the backend write into it. An error of the backend other than not-found is returned as
  it is, and nothing is decompressed. A not-found error is not returned: the operation goes on
  as it does after a fetch without error that has written the same bytes, so with an empty
  compressed file when the backend has written nothing. It runs \<open>Unzip\<close> and, if that
  succeeds, \<open>VerifyUnzipped\<close>, and returns the first error of the two. \<open>Download\<close> returns
  without error exactly when the backend has reported no error or not-found, the staging file
  is open, the digest of the compressed bytes is the recorded one, the bytes decompress without
  error, the digest of the decompressed bytes is the recorded one, and every row is accepted by
  the validator and has at least two columns; the shard then holds the fetched bytes, the
  decompressed bytes and one more patch per row. An empty compressed file is subject to the
  same checks: it ends the operation with the integrity error when the recorded digest is not
  that of no bytes, and with the error of the decompressor when that rejects the empty stream.
\<close>

theorem Bucket_Download_tolerates_not_found:
  assumes "ZippedFile b = Some old"
    and "r = st tr (CallDownloadWriter (StorageBucketName b) (RemoteFilePath b))"
    and "tr' = tr @ [CallDownloadWriter (StorageBucketName b) (RemoteFilePath b)]"
    and "b1 = b\<lparr>ZippedFile := Some (r_bytes r)\<rparr>"
    and "rows = csv_records ev (fst (zlib_read ev (r_bytes r)))"
  shows
    "(r_error r = Some e \<and> \<not> errors_Is_ErrObjectNotExist e \<longrightarrow>
        Bucket_Download st ev Validation tr b = (Some e, b1, tr') \<and> File b1 = File b)
     \<and> (r_error r = None \<or> (\<exists>e'. r_error r = Some e' \<and> errors_Is_ErrObjectNotExist e') \<longrightarrow>
        Bucket_Download st ev Validation tr b =
          (case Unzip ev b1 of
             (Some e, b2) \<Rightarrow> (Some e, b2, tr')
           | (None, b2) \<Rightarrow> (case VerifyUnzipped ev Validation b2 of (e', b3) \<Rightarrow> (e', b3, tr'))))
     \<and> (\<forall>st2. (\<exists>e'. r_error r = Some e' \<and> errors_Is_ErrObjectNotExist e') \<and>
          st2 tr (CallDownloadWriter (StorageBucketName b) (RemoteFilePath b)) = r\<lparr>r_error := None\<rparr> \<longrightarrow>
          Bucket_Download st ev Validation tr b = Bucket_Download st2 ev Validation tr b)
     \<and> (Bucket_Download st ev Validation tr b = (None, b', tr'') \<longleftrightarrow>
          tr'' = tr' \<and>
          (r_error r = None \<or> (\<exists>e'. r_error r = Some e' \<and> errors_Is_ErrObjectNotExist e')) \<and>
          File b \<noteq> None \<and>
          md5_hex ev (r_bytes r) = ZippedHash b \<and>
          zlib_NewReader ev (r_bytes r) = None \<and>
          snd (zlib_read ev (r_bytes r)) = None \<and>
          md5_hex ev (fst (zlib_read ev (r_bytes r))) = UnzippedHash b \<and>
          (\<forall>i<length rows.
              2 \<le> length (rows ! i) \<and>
              Validation (rows ! i)
                (b\<lparr>ZippedFile := Some (r_bytes r), File := Some (fst (zlib_read ev (r_bytes r))),
                   Patches := Patches b @ map row_patch (take i rows)\<rparr>) = None) \<and>
          b' = b\<lparr>ZippedFile := Some (r_bytes r), File := Some (fst (zlib_read ev (r_bytes r))),
                 Patches := Patches b @ map row_patch rows\<rparr>)
     \<and> ((r_error r = None \<or> (\<exists>e'. r_error r = Some e' \<and> errors_Is_ErrObjectNotExist e')) \<and>
          r_bytes r = [] \<and> md5_hex ev [] \<noteq> ZippedHash b \<longrightarrow>
          Bucket_Download st ev Validation tr b =
            (Some (InvalidZippedChecksum (RemoteFilePath b)), b\<lparr>ZippedFile := Some []\<rparr>, tr'))
     \<and> ((r_error r = None \<or> (\<exists>e'. r_error r = Some e' \<and> errors_Is_ErrObjectNotExist e')) \<and>
          r_bytes r = [] \<and> md5_hex ev [] = ZippedHash b \<and> zlib_NewReader ev [] = Some ze \<longrightarrow>
          Bucket_Download st ev Validation tr b = (Some ze, b\<lparr>ZippedFile := Some []\<rparr>, tr'))"
proof -
  let ?c = "CallDownloadWriter (StorageBucketName b) (RemoteFilePath b)"
  let ?tol = "r_error r = None \<or> (\<exists>e'. r_error r = Some e' \<and> errors_Is_ErrObjectNotExist e')"
  let ?cont = "case Unzip ev b1 of
             (Some e, b2) \<Rightarrow> (Some e, b2, tr')
           | (None, b2) \<Rightarrow> (case VerifyUnzipped ev Validation b2 of (e', b3) \<Rightarrow> (e', b3, tr'))"
  note eq = Bucket_Download_fetch [OF assms(1), of st ev Validation tr, folded assms(2)]
  have 1: "r_error r = Some e \<and> \<not> errors_Is_ErrObjectNotExist e \<longrightarrow>
        Bucket_Download st ev Validation tr b = (Some e, b1, tr') \<and> File b1 = File b"
    by (simp add: eq Let_def assms(3,4))
  have 2: "?tol \<longrightarrow> Bucket_Download st ev Validation tr b = ?cont"
    by (auto simp: eq Let_def assms(3,4) split: option.splits prod.splits)
  have 3: "\<forall>st2. (\<exists>e'. r_error r = Some e' \<and> errors_Is_ErrObjectNotExist e') \<and>
          st2 tr ?c = r\<lparr>r_error := None\<rparr> \<longrightarrow>
          Bucket_Download st ev Validation tr b = Bucket_Download st2 ev Validation tr b"
  proof (intro allI impI, elim conjE)
    fix st2
    assume nf: "\<exists>e'. r_error r = Some e' \<and> errors_Is_ErrObjectNotExist e'"
      and st2: "st2 tr ?c = r\<lparr>r_error := None\<rparr>"
    have "Bucket_Download st2 ev Validation tr b = ?cont"
      unfolding Bucket_Download_fetch [OF assms(1), of st2 ev Validation tr] st2
      by (auto simp: Let_def assms(3,4) split: option.splits prod.splits)
    moreover have "Bucket_Download st ev Validation tr b = ?cont"
      using 2 nf by blast
    ultimately show "Bucket_Download st ev Validation tr b = Bucket_Download st2 ev Validation tr b"
      by simp
  qed
  have z1: "ZippedFile b1 = Some (r_bytes r)" by (simp add: assms(4))
  have 4: "Bucket_Download st ev Validation tr b = (None, b', tr'') \<longleftrightarrow>
          tr'' = tr' \<and> ?tol \<and>
          File b \<noteq> None \<and>
          md5_hex ev (r_bytes r) = ZippedHash b \<and>
          zlib_NewReader ev (r_bytes r) = None \<and>
          snd (zlib_read ev (r_bytes r)) = None \<and>
          md5_hex ev (fst (zlib_read ev (r_bytes r))) = UnzippedHash b \<and>
          (\<forall>i<length rows.
              2 \<le> length (rows ! i) \<and>
              Validation (rows ! i)
                (b\<lparr>ZippedFile := Some (r_bytes r), File := Some (fst (zlib_read ev (r_bytes r))),
                   Patches := Patches b @ map row_patch (take i rows)\<rparr>) = None) \<and>
          b' = b\<lparr>ZippedFile := Some (r_bytes r), File := Some (fst (zlib_read ev (r_bytes r))),
                 Patches := Patches b @ map row_patch rows\<rparr>"
    (is "?lhs \<longleftrightarrow> ?rhs")
  proof -
    let ?b2 = "b1\<lparr>File := Some (fst (zlib_read ev (r_bytes r)))\<rparr>"
    have f2: "File ?b2 = Some (fst (zlib_read ev (r_bytes r)))" by simp
    have "?lhs \<longleftrightarrow> tr'' = tr' \<and> ?tol \<and>
        (\<exists>b2. Unzip ev b1 = (None, b2) \<and> VerifyUnzipped ev Validation b2 = (None, b'))"
      unfolding Bucket_Download_ok_iff [OF assms(1)] Let_def
      by (simp add: assms(2,3,4))
    also have "\<dots> \<longleftrightarrow> tr'' = tr' \<and> ?tol \<and>
        (File b1 \<noteq> None \<and> md5_hex ev (r_bytes r) = ZippedHash b1 \<and>
         zlib_NewReader ev (r_bytes r) = None \<and> snd (zlib_read ev (r_bytes r)) = None \<and>
         VerifyUnzipped ev Validation ?b2 = (None, b'))"
      unfolding Unzip_ok_iff [OF z1] by auto
    also have "\<dots> \<longleftrightarrow> ?rhs"
      unfolding VerifyUnzipped_ok_iff [OF f2]
      by (simp add: assms(4,5))
    finally show ?thesis .
  qed
  have 5: "?tol \<and> r_bytes r = [] \<and> md5_hex ev [] \<noteq> ZippedHash b \<longrightarrow>
          Bucket_Download st ev Validation tr b =
            (Some (InvalidZippedChecksum (RemoteFilePath b)), b\<lparr>ZippedFile := Some []\<rparr>, tr')"
  proof (intro impI, elim conjE)
    assume tol: ?tol and empty: "r_bytes r = []" and ne: "md5_hex ev [] \<noteq> ZippedHash b"
    have b1: "b1 = b\<lparr>ZippedFile := Some []\<rparr>" by (simp add: assms(4) empty)
    have "Unzip ev b1 = (Some (InvalidZippedChecksum (RemoteFilePath b1)), b1)"
      by (rule Unzip_mismatch [of b1 "[]"]) (simp_all add: b1 ne)
    then show "Bucket_Download st ev Validation tr b =
            (Some (InvalidZippedChecksum (RemoteFilePath b)), b\<lparr>ZippedFile := Some []\<rparr>, tr')"
      using 2 tol by (simp add: b1)
  qed
  have 6: "?tol \<and> r_bytes r = [] \<and> md5_hex ev [] = ZippedHash b \<and> zlib_NewReader ev [] = Some ze \<longrightarrow>
          Bucket_Download st ev Validation tr b = (Some ze, b\<lparr>ZippedFile := Some []\<rparr>, tr')"
  proof (intro impI, elim conjE)
    assume tol: ?tol and empty: "r_bytes r = []" and h: "md5_hex ev [] = ZippedHash b"
      and ze: "zlib_NewReader ev [] = Some ze"
    have b1: "b1 = b\<lparr>ZippedFile := Some []\<rparr>" by (simp add: assms(4) empty)
    have "Unzip ev b1 = (Some ze, b1)"
      unfolding b1 using h ze
      by (simp add: Unzip_def checksumReadSeeker_Some SeekStart_def contents_def)
    then show "Bucket_Download st ev Validation tr b = (Some ze, b\<lparr>ZippedFile := Some []\<rparr>, tr')"
      using 2 tol by (simp add: b1)
  qed
  from 1 2 3 4 5 6 show ?thesis by (intro conjI)
qed

theorem Bucket_Download_tolerates_not_found_witness:
  "ZippedFile download_good = Some []
   \<and> Bucket_Download (const_storage (Some (StorageError ''unavailable'')) []) demo_env accept_all []
        download_good =
        (Some (StorageError ''unavailable''), download_good,
         [CallDownloadWriter ''store'' ''remote/17-1.csv.zlib''])
   \<and> Bucket_Download (const_storage (Some ErrObjectNotExist) []) demo_env accept_all [] download_good =
        (Some (InvalidZippedChecksum ''remote/17-1.csv.zlib''), download_good,
         [CallDownloadWriter ''store'' ''remote/17-1.csv.zlib''])
   \<and> ZippedFile download_empty = Some [] \<and> md5_hex demo_env [] = ZippedHash download_empty
   \<and> Bucket_Download (const_storage (Some ErrObjectNotExist) []) demo_env accept_all [] download_empty =
        (Some (ZlibError ''invalid header''), download_empty,
         [CallDownloadWriter ''store'' ''remote/17-2.csv.zlib''])
   \<and> Bucket_Download (const_storage None (CHR ''Z'' # good_log)) demo_env accept_all [] download_good =
        (None,
         download_good\<lparr>ZippedFile := Some (CHR ''Z'' # good_log), File := Some good_log,
           Patches := [patch_of ''+'' ''k'' [''v'', ''w''], patch_of ''-'' ''k'' []]\<rparr>,
         [CallDownloadWriter ''store'' ''remote/17-1.csv.zlib''])"
proof -
  have z: "ZippedFile download_good = Some []"
    by (simp add: download_good_def bucket_of_def)
  have same: "download_good\<lparr>ZippedFile := Some []\<rparr> = download_good"
    by (simp add: download_good_def bucket_of_def)
  have names: "StorageBucketName download_good = ''store''"
    "RemoteFilePath download_good = ''remote/17-1.csv.zlib''"
    by (simp_all add: download_good_def bucket_of_def)
  have hashes: "ZippedHash download_good = CHR ''Z'' # good_log"
    "UnzippedHash download_good = good_log" "File download_good = Some []"
    "Patches download_good = []"
    by (simp_all add: download_good_def bucket_of_def)
  have env: "md5_hex demo_env = (\<lambda>bs. bs)"
    "zlib_NewReader demo_env (CHR ''Z'' # good_log) = None"
    "zlib_read demo_env (CHR ''Z'' # good_log) = (good_log, None)"
    "zlib_NewReader demo_env [] = Some (ZlibError ''invalid header'')"
    by (simp_all add: demo_env_def)
  note T1 = Bucket_Download_tolerates_not_found [OF z refl refl refl refl,
      where st = "const_storage (Some (StorageError ''unavailable'')) []" and tr = "[]"
        and e = "StorageError ''unavailable''" and ev = demo_env and Validation = accept_all]
  have 1: "Bucket_Download (const_storage (Some (StorageError ''unavailable'')) []) demo_env accept_all []
        download_good =
        (Some (StorageError ''unavailable''), download_good,
         [CallDownloadWriter ''store'' ''remote/17-1.csv.zlib''])"
    using T1 [THEN conjunct1] by (simp add: const_storage_def same names)
  note T2 = Bucket_Download_tolerates_not_found [OF z refl refl refl refl,
      where st = "const_storage (Some ErrObjectNotExist) []" and tr = "[]"
        and ev = demo_env and Validation = accept_all]
  have 2: "Bucket_Download (const_storage (Some ErrObjectNotExist) []) demo_env accept_all [] download_good =
        (Some (InvalidZippedChecksum ''remote/17-1.csv.zlib''), download_good,
         [CallDownloadWriter ''store'' ''remote/17-1.csv.zlib''])"
    using T2 [THEN conjunct2, THEN conjunct2, THEN conjunct2, THEN conjunct2, THEN conjunct1]
    by (simp add: const_storage_def same names hashes env(1))
  have ze: "ZippedFile download_empty = Some []" "md5_hex demo_env [] = ZippedHash download_empty"
    by (simp_all add: download_empty_def bucket_of_def demo_env_def)
  have samee: "download_empty\<lparr>ZippedFile := Some []\<rparr> = download_empty"
    by (simp add: download_empty_def bucket_of_def)
  have namese: "StorageBucketName download_empty = ''store''"
    "RemoteFilePath download_empty = ''remote/17-2.csv.zlib''"
    by (simp_all add: download_empty_def bucket_of_def)
  note T3 = Bucket_Download_tolerates_not_found [OF ze(1) refl refl refl refl,
      where st = "const_storage (Some ErrObjectNotExist) []" and tr = "[]"
        and ev = demo_env and Validation = accept_all and ze = "ZlibError ''invalid header''"]
  have 3: "Bucket_Download (const_storage (Some ErrObjectNotExist) []) demo_env accept_all [] download_empty =
        (Some (ZlibError ''invalid header''), download_empty,
         [CallDownloadWriter ''store'' ''remote/17-2.csv.zlib''])"
    using T3 [THEN conjunct2, THEN conjunct2, THEN conjunct2, THEN conjunct2, THEN conjunct2] ze(2)
    by (simp add: const_storage_def samee namese env(4))
  note T4 = Bucket_Download_tolerates_not_found [OF z refl refl refl refl,
      where st = "const_storage None (CHR ''Z'' # good_log)" and tr = "[]"
        and ev = demo_env and Validation = accept_all
        and b' = "download_good\<lparr>ZippedFile := Some (CHR ''Z'' # good_log), File := Some good_log,
           Patches := [patch_of ''+'' ''k'' [''v'', ''w''], patch_of ''-'' ''k'' []]\<rparr>"
        and tr'' = "[CallDownloadWriter ''store'' ''remote/17-1.csv.zlib'']"]
  have rb: "r_bytes (const_storage None (CHR ''Z'' # good_log) []
        (CallDownloadWriter (StorageBucketName download_good) (RemoteFilePath download_good))) =
        CHR ''Z'' # good_log"
    "r_error (const_storage None (CHR ''Z'' # good_log) []
        (CallDownloadWriter (StorageBucketName download_good) (RemoteFilePath download_good))) = None"
    by (simp_all add: const_storage_def)
  have 4: "Bucket_Download (const_storage None (CHR ''Z'' # good_log)) demo_env accept_all [] download_good =
        (None,
         download_good\<lparr>ZippedFile := Some (CHR ''Z'' # good_log), File := Some good_log,
           Patches := [patch_of ''+'' ''k'' [''v'', ''w''], patch_of ''-'' ''k'' []]\<rparr>,
         [CallDownloadWriter ''store'' ''remote/17-1.csv.zlib''])"
    unfolding T4 [THEN conjunct2, THEN conjunct2, THEN conjunct2, THEN conjunct1] rb env(3) fst_conv snd_conv
      demo_records_good_log
    by (simp add: names hashes env(1,2) accept_all_def row_patch_def patch_of_def
        all_less_Suc_split numeral_2_eq_2)
  from z 1 2 ze 3 4 show ?thesis by (intro conjI)
qed

text \<open>
  The claim as stated fails on a fetch that the backend answers with not-found, writing
  nothing: the operation goes on with the empty compressed file and fails all the same, with
  the integrity error when the shard records the digest of a non-empty file, and with the
  error of the decompressor when it records the digest of no bytes.
\<close>

theorem Bucket_Download_not_found_counterexample:
  "r_error (const_storage (Some ErrObjectNotExist) [] []
      (CallDownloadWriter ''store'' ''remote/17-1.csv.zlib'')) = Some ErrObjectNotExist
   \<and> r_bytes (const_storage (Some ErrObjectNotExist) [] []
      (CallDownloadWriter ''store'' ''remote/17-1.csv.zlib'')) = []
   \<and> errors_Is_ErrObjectNotExist ErrObjectNotExist
   \<and> ZippedHash download_good \<noteq> md5_hex demo_env []
   \<and> Bucket_Download (const_storage (Some ErrObjectNotExist) []) demo_env accept_all [] download_good =
        (Some (InvalidZippedChecksum ''remote/17-1.csv.zlib''), download_good,
         [CallDownloadWriter ''store'' ''remote/17-1.csv.zlib''])
   \<and> fst (Bucket_Download (const_storage (Some ErrObjectNotExist) []) demo_env accept_all []
          download_good) \<noteq> None
   \<and> ZippedHash download_empty = md5_hex demo_env []
   \<and> Bucket_Download (const_storage (Some ErrObjectNotExist) []) demo_env accept_all [] download_empty =
        (Some (ZlibError ''invalid header''), download_empty,
         [CallDownloadWriter ''store'' ''remote/17-2.csv.zlib''])
   \<and> fst (Bucket_Download (const_storage (Some ErrObjectNotExist) []) demo_env accept_all []
          download_empty) \<noteq> None"
proof -
  have 1: "Bucket_Download (const_storage (Some ErrObjectNotExist) []) demo_env accept_all [] download_good =
        (Some (InvalidZippedChecksum ''remote/17-1.csv.zlib''), download_good,
         [CallDownloadWriter ''store'' ''remote/17-1.csv.zlib''])"
    by (simp add: Bucket_Download_def Truncate_def SeekStart_def call_storage_def const_storage_def
        Unzip_def checksumReadSeeker_def contents_def download_good_def bucket_of_def demo_env_def
        good_log_def demo_csv_row_def)
  have 2: "Bucket_Download (const_storage (Some ErrObjectNotExist) []) demo_env accept_all [] download_empty =
        (Some (ZlibError ''invalid header''), download_empty,
         [CallDownloadWriter ''store'' ''remote/17-2.csv.zlib''])"
    by (simp add: Bucket_Download_def Truncate_def SeekStart_def call_storage_def const_storage_def
        Unzip_def checksumReadSeeker_def contents_def download_empty_def bucket_of_def demo_env_def)
  have 3: "ZippedHash download_good \<noteq> md5_hex demo_env []"
    "ZippedHash download_empty = md5_hex demo_env []"
    by (simp_all add: download_good_def download_empty_def bucket_of_def demo_env_def)
  from 1 2 3 show ?thesis by (simp add: const_storage_def)
qed

section \<open>Properties of \<open>Master.AddPatch\<close>\<close>





























section \<open>Properties of the remote cleanup\<close>

lemma fold_found:
  "fold (\<lambda>bucket found. if name = RemoteFilePath bucket then True else found) bs found0 \<longleftrightarrow>
     found0 \<or> name \<in> set (map RemoteFilePath bs)"
  by (induction bs arbitrary: found0) auto

lemma found_in_master_iff: "found_in_master m name \<longleftrightarrow> \<not> unreferenced m name"
  by (auto simp: found_in_master_def unreferenced_def fold_found Let_def split: option.splits)

lemma cleanup_files_stops:
  "\<exists>k\<le>length (deletions now m i files).
       snd (cleanup_files st now m i tr files) = tr @ take k (deletions now m i files) \<and>
       answered_ok st tr (take (k - 1) (deletions now m i files)) \<and>
       (fst (cleanup_files st now m i tr files) = None \<longrightarrow>
          k = length (deletions now m i files) \<and>
          answered_ok st tr (deletions now m i files)) \<and>
       (fst (cleanup_files st now m i tr files) \<noteq> None \<longrightarrow>
          0 < k \<and>
          fst (cleanup_files st now m i tr files) =
            r_error (st (tr @ take (k - 1) (deletions now m i files))
                        (deletions now m i files ! (k - 1))))"
proof (induction files arbitrary: i tr)
  case Nil
  then show ?case by (simp add: deletions_def)
next
  case (Cons obj rest)
  let ?del = "CallDelete (mStorageBucketName m) (Name obj)"
  show ?case
  proof (cases "deletable now m (i, obj)")
    case False
    then have skip: "cleanup_files st now m i tr (obj # rest) = cleanup_files st now m (Suc i) tr rest"
      by (auto simp: deletable_def found_in_master_iff)
    have same: "deletions now m i (obj # rest) = deletions now m (Suc i) rest"
      using False by (simp add: deletions_def)
    from Cons.IH [of "Suc i" tr] show ?thesis
      unfolding skip same .
  next
    case True
    then have dels: "deletions now m i (obj # rest) = ?del # deletions now m (Suc i) rest"
      by (simp add: deletions_def)
    show ?thesis
    proof (cases "r_error (st tr ?del)")
      case (Some e)
      then have "cleanup_files st now m i tr (obj # rest) = (Some e, tr @ [?del])"
        using True by (auto simp: deletable_def found_in_master_iff call_storage_def)
      then show ?thesis
        using Some by (intro exI [of _ 1]) (simp add: dels)
    next
      case None
      then have go: "cleanup_files st now m i tr (obj # rest) =
          cleanup_files st now m (Suc i) (tr @ [?del]) rest"
        using True by (auto simp: deletable_def found_in_master_iff call_storage_def)
      let ?r = "cleanup_files st now m (Suc i) (tr @ [?del]) rest"
      let ?ds = "deletions now m (Suc i) rest"
      from Cons.IH [of "Suc i" "tr @ [?del]"] obtain k where
        k: "k \<le> length ?ds \<and>
            snd ?r = (tr @ [?del]) @ take k ?ds \<and>
            answered_ok st (tr @ [?del]) (take (k - 1) ?ds) \<and>
            (fst ?r = None \<longrightarrow> k = length ?ds \<and> answered_ok st (tr @ [?del]) ?ds) \<and>
            (fst ?r \<noteq> None \<longrightarrow> 0 < k \<and>
               fst ?r = r_error (st ((tr @ [?del]) @ take (k - 1) ?ds) (?ds ! (k - 1))))" ..
      have 0: "Suc k \<le> length (?del # ?ds)" using k by simp
      have 1: "snd ?r = tr @ take (Suc k) (?del # ?ds)"
        using k by simp
      have 2: "answered_ok st tr (take (Suc k - 1) (?del # ?ds))"
      proof (cases k)
        case 0
        then show ?thesis by simp
      next
        case (Suc k')
        then show ?thesis using k None by simp
      qed
      have 3: "fst ?r = None \<longrightarrow> Suc k = length (?del # ?ds) \<and> answered_ok st tr (?del # ?ds)"
        using k None by simp
      have 4: "fst ?r \<noteq> None \<longrightarrow> 0 < Suc k \<and>
          fst ?r = r_error (st (tr @ take (Suc k - 1) (?del # ?ds)) ((?del # ?ds) ! (Suc k - 1)))"
      proof
        assume "fst ?r \<noteq> None"
        with k have pos: "0 < k"
          and e: "fst ?r = r_error (st ((tr @ [?del]) @ take (k - 1) ?ds) (?ds ! (k - 1)))"
          by blast+
        from pos obtain k' where k': "k = Suc k'" by (cases k) auto
        show "0 < Suc k \<and>
          fst ?r = r_error (st (tr @ take (Suc k - 1) (?del # ?ds)) ((?del # ?ds) ! (Suc k - 1)))"
          using e by (simp add: k')
      qed
      show ?thesis
        unfolding go dels using 0 1 2 3 4 by (intro exI [of _ "Suc k"] conjI)
    qed
  qed
qed


lemma in_deletions_iff:
  "c \<in> set (deletions now m 0 files) \<longleftrightarrow>
     (\<exists>i<length files. c = CallDelete (mStorageBucketName m) (Name (files ! i)) \<and>
        unreferenced m (Name (files ! i)) \<and> day < now i - Created (files ! i))"
  by (auto simp: deletions_def deletable_def in_set_enumerate_eq image_iff)

text \<open>
  C9 (as amended). The sweep lists the remote directory and then issues deletions only. If
  the listing fails, the sweep returns that error and deletes nothing. Otherwise the
  deletions it issues are, in the order of the listing, those of the listed objects that are
  unreferenced (the name is not the categories path, not the remote path of a shard, not the
  path of the master) and were created more than 24 hours before the clock reading taken for
  them; so an object created less than 24 hours before its reading is never deleted. When the
  sweep returns no error, every call was answered without error and every such object has been
  deleted. When a deletion fails, the sweep returns the error of that deletion, which is the
  last call it makes: the deletions before it were answered without error, and none is issued
  after it.
\<close>

theorem CleanupOldFiles_age_gate:
  assumes "CleanupOldFiles st now m tr = (e, tr')"
    and "ls = CallLs (mStorageBucketName m) (mRemoteDir m)"
    and "files = r_files (st tr ls)"
  shows
    "\<exists>new. tr' = tr @ ls # new \<and>
       (\<forall>c\<in>set new. \<exists>i<length files.
           c = CallDelete (mStorageBucketName m) (Name (files ! i)) \<and>
           unreferenced m (Name (files ! i)) \<and> day < now i - Created (files ! i)) \<and>
       (e = None \<longrightarrow>
          answered_ok st tr (ls # new) \<and>
          new = deletions now m 0 files \<and>
          (\<forall>i<length files.
              unreferenced m (Name (files ! i)) \<and> day < now i - Created (files ! i) \<longrightarrow>
              CallDelete (mStorageBucketName m) (Name (files ! i)) \<in> set new)) \<and>
       (r_error (st tr ls) \<noteq> None \<longrightarrow> e = r_error (st tr ls) \<and> new = []) \<and>
       (r_error (st tr ls) = None \<longrightarrow> new = take (length new) (deletions now m 0 files)) \<and>
       (r_error (st tr ls) = None \<and> e \<noteq> None \<longrightarrow>
          new \<noteq> [] \<and>
          answered_ok st tr (ls # butlast new) \<and>
          e = r_error (st (tr @ ls # butlast new) (last new)))"
proof -
  let ?ds = "deletions now m 0 files"
  have run0: "CleanupOldFiles st now m tr =
      (case r_error (st tr ls) of
         Some err \<Rightarrow> (Some err, tr @ [ls])
       | None \<Rightarrow> cleanup_files st now m 0 (tr @ [ls]) files)"
    unfolding assms(3) assms(2) by (simp add: CleanupOldFiles_def call_storage_def)
  show ?thesis
  proof (cases "r_error (st tr ls)")
    case (Some err)
    with run0 assms(1) have "tr' = tr @ [ls]" and "e = Some err"
      by simp_all
    then show ?thesis
      using Some by (intro exI [of _ "[]"]) simp
  next
    case None
    with run0 assms(1) have run: "cleanup_files st now m 0 (tr @ [ls]) files = (e, tr')"
      by simp
    from cleanup_files_stops [of now m 0 files st "tr @ [ls]"] obtain k where
      k: "k \<le> length ?ds \<and>
          snd (cleanup_files st now m 0 (tr @ [ls]) files) = (tr @ [ls]) @ take k ?ds \<and>
          answered_ok st (tr @ [ls]) (take (k - 1) ?ds) \<and>
          (fst (cleanup_files st now m 0 (tr @ [ls]) files) = None \<longrightarrow>
             k = length ?ds \<and> answered_ok st (tr @ [ls]) ?ds) \<and>
          (fst (cleanup_files st now m 0 (tr @ [ls]) files) \<noteq> None \<longrightarrow>
             0 < k \<and>
             fst (cleanup_files st now m 0 (tr @ [ls]) files) =
               r_error (st ((tr @ [ls]) @ take (k - 1) ?ds) (?ds ! (k - 1))))" ..
    let ?new = "take k ?ds"
    have kl: "k \<le> length ?ds" using k by (rule conjunct1)
    have k2: "tr' = (tr @ [ls]) @ take k ?ds"
      using k [THEN conjunct2, THEN conjunct1] by (simp only: run snd_conv)
    have k3: "answered_ok st (tr @ [ls]) (take (k - 1) ?ds)"
      using k [THEN conjunct2, THEN conjunct2, THEN conjunct1] .
    have k4: "e = None \<longrightarrow> k = length ?ds \<and> answered_ok st (tr @ [ls]) ?ds"
      using k [THEN conjunct2, THEN conjunct2, THEN conjunct2, THEN conjunct1]
      by (simp only: run fst_conv)
    have k5: "e \<noteq> None \<longrightarrow> 0 < k \<and>
        e = r_error (st ((tr @ [ls]) @ take (k - 1) ?ds) (?ds ! (k - 1)))"
      using k [THEN conjunct2, THEN conjunct2, THEN conjunct2, THEN conjunct2]
      by (simp only: run fst_conv)
    have len: "length ?new = k" using kl by simp
    have lsok: "answered_ok st tr (ls # cs) = answered_ok st (tr @ [ls]) cs" for cs
      using None by simp
    have 1: "tr' = tr @ ls # ?new"
      using k2 by simp
    have 2: "\<forall>c\<in>set ?new. \<exists>i<length files.
           c = CallDelete (mStorageBucketName m) (Name (files ! i)) \<and>
           unreferenced m (Name (files ! i)) \<and> day < now i - Created (files ! i)"
    proof
      fix c assume "c \<in> set ?new"
      then have "c \<in> set ?ds" by (rule in_set_takeD)
      then show "\<exists>i<length files.
           c = CallDelete (mStorageBucketName m) (Name (files ! i)) \<and>
           unreferenced m (Name (files ! i)) \<and> day < now i - Created (files ! i)"
        by (simp only: in_deletions_iff)
    qed
    have 3: "e = None \<longrightarrow>
          answered_ok st tr (ls # ?new) \<and>
          ?new = ?ds \<and>
          (\<forall>i<length files.
              unreferenced m (Name (files ! i)) \<and> day < now i - Created (files ! i) \<longrightarrow>
              CallDelete (mStorageBucketName m) (Name (files ! i)) \<in> set ?new)"
    proof
      assume "e = None"
      with k4 have all: "k = length ?ds" and ok: "answered_ok st (tr @ [ls]) ?ds"
        by blast+
      have new: "?new = ?ds" using all by simp
      have mem: "\<forall>i<length files.
              unreferenced m (Name (files ! i)) \<and> day < now i - Created (files ! i) \<longrightarrow>
              CallDelete (mStorageBucketName m) (Name (files ! i)) \<in> set ?ds"
      proof (intro allI impI)
        fix i assume "i < length files"
          and "unreferenced m (Name (files ! i)) \<and> day < now i - Created (files ! i)"
        then have "\<exists>j<length files.
            CallDelete (mStorageBucketName m) (Name (files ! i)) =
              CallDelete (mStorageBucketName m) (Name (files ! j)) \<and>
            unreferenced m (Name (files ! j)) \<and> day < now j - Created (files ! j)"
          by (intro exI [of _ i]) simp
        then show "CallDelete (mStorageBucketName m) (Name (files ! i)) \<in> set ?ds"
          by (simp only: in_deletions_iff)
      qed
      show "answered_ok st tr (ls # ?new) \<and>
          ?new = ?ds \<and>
          (\<forall>i<length files.
              unreferenced m (Name (files ! i)) \<and> day < now i - Created (files ! i) \<longrightarrow>
              CallDelete (mStorageBucketName m) (Name (files ! i)) \<in> set ?new)"
        unfolding new lsok using ok mem by (intro conjI refl)
    qed
    have 4: "r_error (st tr ls) \<noteq> None \<longrightarrow> e = r_error (st tr ls) \<and> ?new = []"
      using None by simp
    have 5: "r_error (st tr ls) = None \<longrightarrow> ?new = take (length ?new) ?ds"
      by (simp only: len) simp
    have 6: "r_error (st tr ls) = None \<and> e \<noteq> None \<longrightarrow>
          ?new \<noteq> [] \<and>
          answered_ok st tr (ls # butlast ?new) \<and>
          e = r_error (st (tr @ ls # butlast ?new) (last ?new))"
    proof (intro impI, elim conjE)
      assume "e \<noteq> None"
      with k5 have pos: "0 < k"
        and err: "e = r_error (st ((tr @ [ls]) @ take (k - 1) ?ds) (?ds ! (k - 1)))"
        by blast+
      have ne: "?new \<noteq> []" using pos kl by auto
      have bl: "butlast ?new = take (k - 1) ?ds"
        using kl by (simp add: butlast_take)
      have la: "last ?new = ?ds ! (k - 1)"
        using pos kl ne by (simp add: last_conv_nth)
      have e2: "e = r_error (st (tr @ ls # take (k - 1) ?ds) (?ds ! (k - 1)))"
        using err by simp
      show "?new \<noteq> [] \<and>
          answered_ok st tr (ls # butlast ?new) \<and>
          e = r_error (st (tr @ ls # butlast ?new) (last ?new))"
        unfolding bl la lsok using ne k3 e2 by (intro conjI)
    qed
    from 1 2 3 4 5 6 show ?thesis by (intro exI [of _ ?new] conjI)
  qed
qed

lemma sweep_run:
  "CleanupOldFiles (sweep_storage refused) sweep_clock (master_of []) [] =
     (if ''remote/5-1.csv.zlib'' \<in> set refused then
        (Some (StorageError ''denied''),
         [CallLs ''store'' ''remote'', CallDelete ''store'' ''remote/5-1.csv.zlib''])
      else if ''remote/6-1.csv.zlib'' \<in> set refused then
        (Some (StorageError ''denied''),
         [CallLs ''store'' ''remote'', CallDelete ''store'' ''remote/5-1.csv.zlib'',
          CallDelete ''store'' ''remote/6-1.csv.zlib''])
      else
        (None,
         [CallLs ''store'' ''remote'', CallDelete ''store'' ''remote/5-1.csv.zlib'',
          CallDelete ''store'' ''remote/6-1.csv.zlib'']))"
  by (simp add: CleanupOldFiles_def call_storage_def sweep_storage_def sweep_listing_def
      sweep_clock_def master_of_def found_in_master_def day_def)

lemma sweep_run_slow:
  "CleanupOldFiles (sweep_storage []) sweep_clock_slow (master_of []) [] =
     (None,
      [CallLs ''store'' ''remote'', CallDelete ''store'' ''remote/5-1.csv.zlib'',
       CallDelete ''store'' ''remote/9-2.csv.zlib'', CallDelete ''store'' ''remote/6-1.csv.zlib''])"
  by (simp add: CleanupOldFiles_def call_storage_def sweep_storage_def sweep_listing_def
      sweep_clock_slow_def master_of_def found_in_master_def day_def)

lemma sweep_old_orphan:
  "unreferenced (master_of []) (Name (sweep_listing ! 3)) \<and>
   day < sweep_clock 3 - Created (sweep_listing ! 3) \<and>
   Name (sweep_listing ! 3) = ''remote/6-1.csv.zlib''"
  by (simp add: unreferenced_def master_of_def sweep_listing_def sweep_clock_def day_def)

lemma sweep_old_orphan_name: "unreferenced (master_of []) ''remote/6-1.csv.zlib''"
  by (simp add: unreferenced_def master_of_def)

lemma sweep_files:
  "sweep_listing =
     r_files (sweep_storage refused [] (CallLs (mStorageBucketName (master_of [])) (mRemoteDir (master_of []))))"
  by (simp add: sweep_storage_def)

theorem CleanupOldFiles_age_gate_witness:
  "CleanupOldFiles (sweep_storage []) sweep_clock (master_of []) [] =
     (None,
      [CallLs ''store'' ''remote'', CallDelete ''store'' ''remote/5-1.csv.zlib'',
       CallDelete ''store'' ''remote/6-1.csv.zlib''])
   \<and> unreferenced (master_of []) ''remote/6-1.csv.zlib''
   \<and> day < sweep_clock 3 - Created (sweep_listing ! 3)
   \<and> CallDelete ''store'' ''remote/6-1.csv.zlib''
        \<in> set (snd (CleanupOldFiles (sweep_storage []) sweep_clock (master_of []) []))
   \<and> unreferenced (master_of []) ''remote/9-2.csv.zlib''
   \<and> sweep_clock 2 - Created (sweep_listing ! 2) < day
   \<and> CallDelete ''store'' ''remote/9-2.csv.zlib''
        \<notin> set (snd (CleanupOldFiles (sweep_storage []) sweep_clock (master_of []) []))
   \<and> CleanupOldFiles (sweep_storage [''remote/6-1.csv.zlib'']) sweep_clock (master_of []) [] =
        (Some (StorageError ''denied''),
         [CallLs ''store'' ''remote'', CallDelete ''store'' ''remote/5-1.csv.zlib'',
          CallDelete ''store'' ''remote/6-1.csv.zlib''])
   \<and> r_error (sweep_storage [''remote/6-1.csv.zlib'']
          [CallLs ''store'' ''remote'', CallDelete ''store'' ''remote/5-1.csv.zlib'']
          (CallDelete ''store'' ''remote/6-1.csv.zlib'')) = Some (StorageError ''denied'')"
proof -
  let ?ls = "CallLs (mStorageBucketName (master_of [])) (mRemoteDir (master_of []))"
  let ?tr = "[CallLs ''store'' ''remote'', CallDelete ''store'' ''remote/5-1.csv.zlib'',
       CallDelete ''store'' ''remote/6-1.csv.zlib'']"
  have run: "CleanupOldFiles (sweep_storage []) sweep_clock (master_of []) [] = (None, ?tr)"
    by (simp add: sweep_run)
  from CleanupOldFiles_age_gate [OF run refl sweep_files] obtain new where
    new: "?tr = [] @ ?ls # new"
      "(None :: error option) = None \<longrightarrow>
         answered_ok (sweep_storage []) [] (?ls # new) \<and>
         new = deletions sweep_clock (master_of []) 0 sweep_listing \<and>
         (\<forall>i<length sweep_listing.
            unreferenced (master_of []) (Name (sweep_listing ! i)) \<and>
            day < sweep_clock i - Created (sweep_listing ! i) \<longrightarrow>
            CallDelete (mStorageBucketName (master_of [])) (Name (sweep_listing ! i)) \<in> set new)"
    by blast
  have "3 < length sweep_listing" by (simp add: sweep_listing_def)
  with new(2) sweep_old_orphan
  have "CallDelete (mStorageBucketName (master_of [])) ''remote/6-1.csv.zlib'' \<in> set new"
    by metis
  then have in6: "CallDelete ''store'' ''remote/6-1.csv.zlib'' \<in> set ?tr"
    using new(1) by (simp add: master_of_def)
  have young: "unreferenced (master_of []) ''remote/9-2.csv.zlib''"
    "sweep_clock 2 - Created (sweep_listing ! 2) < day"
    by (simp_all add: unreferenced_def master_of_def sweep_listing_def sweep_clock_def day_def)
  let ?tr2 = "[CallLs ''store'' ''remote'', CallDelete ''store'' ''remote/5-1.csv.zlib'',
       CallDelete ''store'' ''remote/6-1.csv.zlib'']"
  have run2: "CleanupOldFiles (sweep_storage [''remote/6-1.csv.zlib'']) sweep_clock (master_of []) [] =
      (Some (StorageError ''denied''), ?tr2)"
    by (simp add: sweep_run)
  have lsok: "r_error (sweep_storage [''remote/6-1.csv.zlib''] [] ?ls) = None"
    by (simp add: sweep_storage_def)
  from CleanupOldFiles_age_gate [OF run2 refl sweep_files] obtain new2 where
    new2: "?tr2 = [] @ ?ls # new2"
      "r_error (sweep_storage [''remote/6-1.csv.zlib''] [] ?ls) = None \<and>
         Some (StorageError ''denied'') \<noteq> None \<longrightarrow>
         new2 \<noteq> [] \<and>
         answered_ok (sweep_storage [''remote/6-1.csv.zlib'']) [] (?ls # butlast new2) \<and>
         Some (StorageError ''denied'') =
           r_error (sweep_storage [''remote/6-1.csv.zlib''] ([] @ ?ls # butlast new2) (last new2))"
    by blast
  from new2(1) have n2: "new2 = [CallDelete ''store'' ''remote/5-1.csv.zlib'',
       CallDelete ''store'' ''remote/6-1.csv.zlib'']"
    by (simp add: master_of_def)
  from new2(2) lsok have "Some (StorageError ''denied'') =
      r_error (sweep_storage [''remote/6-1.csv.zlib''] ([] @ ?ls # butlast new2) (last new2))"
    by simp
  then have last: "r_error (sweep_storage [''remote/6-1.csv.zlib'']
          [CallLs ''store'' ''remote'', CallDelete ''store'' ''remote/5-1.csv.zlib'']
          (CallDelete ''store'' ''remote/6-1.csv.zlib'')) = Some (StorageError ''denied'')"
    unfolding n2 by (simp add: master_of_def)
  from run in6 young sweep_old_orphan sweep_old_orphan_name run2 last show ?thesis
    by simp
qed

text \<open>
  The claim as stated fails in two ways. On a run in which a deletion is refused the sweep
  ends there, and an unreferenced object older than 24 hours that comes later in the listing
  is not deleted. And the age of an object is taken at the clock reading for that object, not
  at the start of the sweep: in a sweep whose first reading, for the object before it in the
  listing, is taken 5 nanoseconds after an unreferenced object was created, and which reaches
  that object two days later, the object is deleted.
\<close>

theorem CleanupOldFiles_refused_counterexample:
  "unreferenced (master_of []) ''remote/6-1.csv.zlib''
   \<and> Name (sweep_listing ! 3) = ''remote/6-1.csv.zlib''
   \<and> day < sweep_clock 3 - Created (sweep_listing ! 3)
   \<and> CleanupOldFiles (sweep_storage [''remote/5-1.csv.zlib'']) sweep_clock (master_of []) [] =
        (Some (StorageError ''denied''),
         [CallLs ''store'' ''remote'', CallDelete ''store'' ''remote/5-1.csv.zlib''])
   \<and> CallDelete ''store'' ''remote/6-1.csv.zlib''
        \<notin> set (snd (CleanupOldFiles (sweep_storage [''remote/5-1.csv.zlib'']) sweep_clock (master_of []) []))
   \<and> Name (sweep_listing ! 2) = ''remote/9-2.csv.zlib''
   \<and> sweep_clock_slow 1 - Created (sweep_listing ! 2) = 5
   \<and> sweep_clock_slow 1 - Created (sweep_listing ! 2) < day
   \<and> sweep_clock_slow 2 - Created (sweep_listing ! 2) = 2 * day + 5
   \<and> fst (CleanupOldFiles (sweep_storage []) sweep_clock_slow (master_of []) []) = None
   \<and> CallDelete ''store'' ''remote/9-2.csv.zlib''
        \<in> set (snd (CleanupOldFiles (sweep_storage []) sweep_clock_slow (master_of []) []))"
proof -
  have slow: "Name (sweep_listing ! 2) = ''remote/9-2.csv.zlib''"
    "sweep_clock_slow 1 - Created (sweep_listing ! 2) = 5"
    "sweep_clock_slow 1 - Created (sweep_listing ! 2) < day"
    "sweep_clock_slow 2 - Created (sweep_listing ! 2) = 2 * day + 5"
    by (simp_all add: sweep_listing_def sweep_clock_slow_def day_def)
  from slow sweep_old_orphan sweep_old_orphan_name show ?thesis
    by (simp add: sweep_run sweep_run_slow)
qed

section \<open>Properties of \<open>Master.Download\<close>\<close>













lemma joinPath_two: "joinPath [a, b] = a @ ''/'' @ b"
  by (simp add: joinPath_def strings_Join_def)



section \<open>Properties of the publish\<close>

lemma Compress_ok:
  "Compress ev b = (None, b1) \<Longrightarrow>
   b1 = b\<lparr>ZippedFile := Some (zlib_compress ev (contents (File b)))\<rparr>"
  by (auto simp: Compress_def Truncate_def SeekStart_def split: option.splits)

lemma Hash_ok:
  "Hash ev b = (None, b2) \<Longrightarrow>
   b2 = b\<lparr>UnzippedHash := md5_hex ev (contents (File b)),
          ZippedHash := md5_hex ev (contents (ZippedFile b))\<rparr>"
  by (auto simp: Hash_def checksumReadSeeker_def SeekStart_def split: option.splits)

lemma upload_file_ok:
  "upload_file st tr sb path f public = (None, tr') \<Longrightarrow>
   tr' = tr @ upload_calls public sb path (contents f)"
  by (auto simp: upload_file_def upload_calls_def call_storage_def SeekStart_def Let_def
      split: option.splits if_splits)

lemma csv_write_ok:
  "csv_write ev f row = (None, f') \<Longrightarrow> \<exists>old. f = Some old \<and> f' = Some (old @ csv_row ev row)"
  by (auto simp: csv_write_def split: option.splits)

lemma publish_changed_bucket_ok:
  assumes "publish_changed_bucket st ev Validation public unixTime remoteDir tr b = (None, b', tr')"
  shows "b' = published ev unixTime remoteDir b \<and> tr' = tr @ bucket_calls public b'"
proof -
  obtain e1 b1 where c: "Compress ev b = (e1, b1)" by (cases "Compress ev b")
  with assms have e1: "e1 = None" by (cases e1) (simp_all add: publish_changed_bucket_def)
  from assms c e1 have v: "VerifyZipped ev Validation b1 = None"
    by (cases "VerifyZipped ev Validation b1") (simp_all add: publish_changed_bucket_def)
  obtain e2 b2 where h: "Hash ev b1 = (e2, b2)" by (cases "Hash ev b1")
  with assms c e1 v have e2: "e2 = None" by (cases e2) (simp_all add: publish_changed_bucket_def)
  let ?b3 = "b2\<lparr>RelativeFilePath := Itoa unixTime @ ''-'' @ ZippedFileName b2,
       RemoteFilePath := joinPath [remoteDir, Itoa unixTime @ ''-'' @ ZippedFileName b2]\<rparr>"
  from assms c e1 v h e2 have u: "Bucket_Upload st tr ?b3 public = (None, tr')" and b': "b' = ?b3"
    by (simp_all add: publish_changed_bucket_def split: prod.splits)
  have b1: "b1 = b\<lparr>ZippedFile := Some (zlib_compress ev (contents (File b)))\<rparr>"
    using c e1 by (simp add: Compress_ok)
  have b2: "b2 = b1\<lparr>UnzippedHash := md5_hex ev (contents (File b1)),
          ZippedHash := md5_hex ev (contents (ZippedFile b1))\<rparr>"
    using h e2 by (simp add: Hash_ok)
  have "b' = published ev unixTime remoteDir b"
    unfolding b' b2 b1 by (simp add: published_def contents_def joinPath_def strings_Join_def)
  moreover have "tr' = tr @ bucket_calls public b'"
    using upload_file_ok [OF u [unfolded Bucket_Upload_def]] by (simp add: bucket_calls_def b')
  ultimately show ?thesis by simp
qed

lemma after_publish_flags:
  "IsDeleted (after_publish ev u rd b) = IsDeleted b"
  "IsChanged (after_publish ev u rd b) = IsChanged b"
  by (simp_all add: after_publish_def published_def)

lemma publish_buckets_ok:
  assumes "publish_buckets st ev Validation public unixTime remoteDir (Some old, tr) bs = (None, bs', mf', tr')"
  shows "bs' = map (after_publish ev unixTime remoteDir) bs \<and>
     mf' = Some (old @ concat (map (\<lambda>b. csv_row ev (descriptor_row b))
                         (filter (\<lambda>b. \<not> IsDeleted b) bs'))) \<and>
     tr' = tr @ concat (map (bucket_calls public) (filter (\<lambda>b. \<not> IsDeleted b \<and> IsChanged b) bs'))"
  using assms
proof (induction bs arbitrary: old tr bs' mf' tr')
  case Nil
  then show ?case by simp
next
  case (Cons b rest)
  show ?case
  proof (cases "IsDeleted b")
    case True
    obtain e r' f' t' where rec:
      "publish_buckets st ev Validation public unixTime remoteDir (Some old, tr) rest = (e, r', f', t')"
      by (cases "publish_buckets st ev Validation public unixTime remoteDir (Some old, tr) rest")
    with Cons.prems True have res: "e = None" "bs' = b # r'" "mf' = f'" "tr' = t'"
      by simp_all
    from Cons.IH [OF rec [unfolded res(1)]] True res show ?thesis
      by (simp add: after_publish_def)
  next
    case False
    let ?step = "if IsChanged b
               then publish_changed_bucket st ev Validation public unixTime remoteDir tr b
               else (None, b, tr)"
    obtain e1 b1 t1 where step: "?step = (e1, b1, t1)" by (cases ?step)
    with Cons.prems False have e1: "e1 = None"
      by (cases e1) (simp_all split: prod.splits)
    have b1: "b1 = after_publish ev unixTime remoteDir b"
      and t1: "t1 = tr @ (if IsChanged b then bucket_calls public b1 else [])"
      using step e1 False publish_changed_bucket_ok [of st ev Validation public unixTime remoteDir tr b b1 t1]
      by (auto simp: after_publish_def split: if_splits)
    obtain e2 f2 where w: "csv_write ev (Some old) (descriptor_row b1) = (e2, f2)"
      by (cases "csv_write ev (Some old) (descriptor_row b1)")
    then have e2: "e2 = None" and f2: "f2 = Some (old @ csv_row ev (descriptor_row b1))"
      by (simp_all add: csv_write_def)
    obtain e r' f' t' where rec:
      "publish_buckets st ev Validation public unixTime remoteDir (f2, t1) rest = (e, r', f', t')"
      by (cases "publish_buckets st ev Validation public unixTime remoteDir (f2, t1) rest")
    with Cons.prems False step e1 w e2 have res: "e = None" "bs' = b1 # r'" "mf' = f'" "tr' = t'"
      by (simp_all split: if_splits)
    from Cons.IH [OF rec [unfolded res(1) f2]] res False b1 t1 show ?thesis
      by (simp add: after_publish_flags)
  qed
qed


lemma publish_header_ok:
  "publish_header ev unixTime dateTime m = (None, m1) \<Longrightarrow>
   m1 = m\<lparr>mUnixTime := unixTime, mDateTime := dateTime,
          mFile := Some (csv_row ev [''V1'', Itoa unixTime, dateTime])\<rparr>"
  by (auto simp: publish_header_def Truncate_def SeekStart_def csv_write_def Let_def
      split: option.splits)

lemma Categories_Write_ok:
  "Categories_Write ev c = (None, c1) \<Longrightarrow> c1 = written_categories ev c"
  by (auto simp: Categories_Write_def written_categories_def Truncate_def SeekStart_def
      split: option.splits)

lemma Categories_IsChanged_written:
  "Categories_IsChanged ev (written_categories ev c) = (categories_changed ev c, None)"
  by (simp add: Categories_IsChanged_def categories_changed_def checksumReadSeeker_def
      SeekStart_def written_categories_def)

lemma Categories_Compress_ok:
  "Categories_Compress ev c = (None, c1) \<Longrightarrow>
   c1 = c\<lparr>cZippedFile := Some (zlib_compress ev (contents (cFile c)))\<rparr>"
  by (auto simp: Categories_Compress_def Truncate_def SeekStart_def split: option.splits)

lemma Categories_Hash_ok:
  "Categories_Hash ev c = (None, c2) \<Longrightarrow>
   c2 = c\<lparr>cUnzippedHash := md5_hex ev (contents (cFile c)),
          cZippedHash := md5_hex ev (contents (cZippedFile c))\<rparr>"
  by (auto simp: Categories_Hash_def checksumReadSeeker_def SeekStart_def split: option.splits)

lemma publish_changed_categories_ok:
  assumes "publish_changed_categories st ev public unixTime remoteDir tr (written_categories ev c) =
      (None, c', tr')"
  shows "c' = published_categories ev unixTime remoteDir c \<and>
     tr' = tr @ upload_calls public (cStorageBucketName c) (cRemoteFilePath c') (contents (cZippedFile c'))"
proof -
  let ?w = "written_categories ev c"
  obtain e1 c1 where cc: "Categories_Compress ev ?w = (e1, c1)" by (cases "Categories_Compress ev ?w")
  with assms have e1: "e1 = None" by (cases e1) (simp_all add: publish_changed_categories_def)
  obtain e2 c2 where h: "Categories_Hash ev c1 = (e2, c2)" by (cases "Categories_Hash ev c1")
  with assms cc e1 have e2: "e2 = None" by (cases e2) (simp_all add: publish_changed_categories_def)
  let ?c3 = "c2\<lparr>cRelativeFilePath := Itoa unixTime @ ''-'' @ cZippedFileName c2,
       cRemoteFilePath := joinPath [remoteDir, Itoa unixTime @ ''-'' @ cZippedFileName c2]\<rparr>"
  from assms cc e1 h e2 have u: "Categories_Upload st tr ?c3 public = (None, tr')" and c': "c' = ?c3"
    by (simp_all add: publish_changed_categories_def split: prod.splits)
  have c1: "c1 = ?w\<lparr>cZippedFile := Some (zlib_compress ev (contents (cFile ?w)))\<rparr>"
    using cc e1 by (simp add: Categories_Compress_ok)
  have c2: "c2 = c1\<lparr>cUnzippedHash := md5_hex ev (contents (cFile c1)),
          cZippedHash := md5_hex ev (contents (cZippedFile c1))\<rparr>"
    using h e2 by (simp add: Categories_Hash_ok)
  have eq: "c' = published_categories ev unixTime remoteDir c"
    unfolding c' c2 c1
    by (simp add: published_categories_def contents_def joinPath_def strings_Join_def
        written_categories_def)
  have "tr' = tr @ upload_calls public (cStorageBucketName c') (cRemoteFilePath c') (contents (cZippedFile c'))"
    unfolding c' using upload_file_ok [OF u [unfolded Categories_Upload_def]] .
  moreover have "cStorageBucketName c' = cStorageBucketName c"
    unfolding eq by (simp add: published_categories_def written_categories_def)
  ultimately show ?thesis using eq by simp
qed

lemma publish_categories_ok:
  assumes "publish_categories st ev tr m = (None, m', tr')" and "mFile m = Some old"
  shows "m' = m\<lparr>mCategories := map_option (categories_after ev (mUnixTime m) (mRemoteDir m)) (mCategories m),
                mFile := Some (old @ categories_rows_written ev (mUnixTime m) m)\<rparr> \<and>
     tr' = tr @ categories_calls ev (mPublic m) (mUnixTime m) (mRemoteDir m) (mCategories m)"
proof (cases "mCategories m")
  case None
  then show ?thesis
    using assms by (simp add: publish_categories_def categories_calls_def categories_rows_written_def)
next
  case (Some c)
  let ?w = "written_categories ev c"
  obtain e1 c1 where w: "Categories_Write ev c = (e1, c1)" by (cases "Categories_Write ev c")
  with assms Some have e1: "e1 = None" by (cases e1) (simp_all add: publish_categories_def)
  with w have c1: "c1 = ?w" by (simp add: Categories_Write_ok)
  let ?step = "if categories_changed ev c
      then publish_changed_categories st ev (mPublic m) (mUnixTime m) (mRemoteDir m) tr ?w
      else (None, ?w, tr)"
  obtain e2 c2 t2 where step: "?step = (e2, c2, t2)" by (cases ?step)
  from assms Some w e1 c1 step have e2: "e2 = None"
    by (cases e2) (simp_all add: publish_categories_def Categories_IsChanged_written)
  have c2: "c2 = categories_after ev (mUnixTime m) (mRemoteDir m) c"
    and t2: "t2 = tr @ categories_calls ev (mPublic m) (mUnixTime m) (mRemoteDir m) (Some c)"
    using step e2 publish_changed_categories_ok [of st ev "mPublic m" "mUnixTime m" "mRemoteDir m" tr c c2 t2]
    by (auto simp: categories_after_def categories_calls_def split: if_splits)
  from assms Some w e1 c1 step e2
  have "m' = m\<lparr>mCategories := Some c2,
      mFile := Some (old @ csv_row ev [''-1'', cRelativeFilePath c2, ''zlib'', cZippedHash c2,
                                  cUnzippedHash c2, Itoa (int (length (mCategoryItems m)))])\<rparr>"
    and "tr' = t2"
    by (simp_all add: publish_categories_def Categories_IsChanged_written csv_write_def)
  then show ?thesis
    using Some c2 t2 by (simp add: categories_rows_written_def categories_row_def)
qed

lemma UploadToStorageBucket_ok:
  assumes "UploadToStorageBucket st ev Validation unixTime dateTime tr m = (None, m', tr')"
  shows "m' = m\<lparr>mUnixTime := unixTime, mDateTime := dateTime,
        mCategories := map_option (categories_after ev unixTime (mRemoteDir m)) (mCategories m),
        Buckets := map (after_publish ev unixTime (mRemoteDir m)) (Buckets m),
        mFile := Some (csv_row ev [''V1'', Itoa unixTime, dateTime] @
                       categories_rows_written ev unixTime m @
                       concat (map (\<lambda>b. csv_row ev (descriptor_row b))
                         (filter (\<lambda>b. \<not> IsDeleted b)
                            (map (after_publish ev unixTime (mRemoteDir m)) (Buckets m)))))\<rparr>"
    and "tr' = tr @ categories_calls ev (mPublic m) unixTime (mRemoteDir m) (mCategories m) @
        concat (map (bucket_calls (mPublic m))
          (filter (\<lambda>b. \<not> IsDeleted b \<and> IsChanged b)
             (map (after_publish ev unixTime (mRemoteDir m)) (Buckets m)))) @
        upload_calls (mPublic m) (mStorageBucketName m) (mRemoteDir m @ ''/'' @ mFileName m)
          (contents (mFile m'))"
proof -
  obtain e1 m1 where h: "publish_header ev unixTime dateTime m = (e1, m1)"
    by (cases "publish_header ev unixTime dateTime m")
  with assms have e1: "e1 = None" by (cases e1) (simp_all add: UploadToStorageBucket_def)
  have m1: "m1 = m\<lparr>mUnixTime := unixTime, mDateTime := dateTime,
          mFile := Some (csv_row ev [''V1'', Itoa unixTime, dateTime])\<rparr>"
    using h e1 by (simp add: publish_header_ok)
  obtain e2 m2 t2 where c: "publish_categories st ev tr m1 = (e2, m2, t2)"
    by (cases "publish_categories st ev tr m1")
  with assms h e1 have e2: "e2 = None" by (cases e2) (simp_all add: UploadToStorageBucket_def)
  have f1: "mFile m1 = Some (csv_row ev [''V1'', Itoa unixTime, dateTime])"
    by (simp add: m1)
  note cat = publish_categories_ok [OF c [unfolded e2] f1]
  have rows: "categories_rows_written ev (mUnixTime m1) m1 = categories_rows_written ev unixTime m"
    by (simp add: m1 categories_rows_written_def categories_row_def split: option.splits)
  have m2: "m2 = m\<lparr>mUnixTime := unixTime, mDateTime := dateTime,
        mCategories := map_option (categories_after ev unixTime (mRemoteDir m)) (mCategories m),
        mFile := Some (csv_row ev [''V1'', Itoa unixTime, dateTime] @ categories_rows_written ev unixTime m)\<rparr>"
    using cat [THEN conjunct1] unfolding rows by (simp add: m1)
  have t2: "t2 = tr @ categories_calls ev (mPublic m) unixTime (mRemoteDir m) (mCategories m)"
    using cat [THEN conjunct2] by (simp add: m1)
  let ?hdr = "csv_row ev [''V1'', Itoa unixTime, dateTime] @ categories_rows_written ev unixTime m"
  obtain e3 bs mf t3 where b:
    "publish_buckets st ev Validation (mPublic m) unixTime (mRemoteDir m) (Some ?hdr, t2) (Buckets m) =
       (e3, bs, mf, t3)"
    by (cases "publish_buckets st ev Validation (mPublic m) unixTime (mRemoteDir m) (Some ?hdr, t2) (Buckets m)")
  have pb: "publish_buckets st ev Validation (mPublic m2) (mUnixTime m2) (mRemoteDir m2) (mFile m2, t2) (Buckets m2)
      = (e3, bs, mf, t3)"
    using b by (simp add: m2)
  with assms h e1 c e2 have e3: "e3 = None" by (cases e3) (simp_all add: UploadToStorageBucket_def)
  note loop = publish_buckets_ok [OF b [unfolded e3]]
  from assms h e1 c e2 pb e3
  have m': "m' = m2\<lparr>Buckets := bs, mFile := mf\<rparr>"
    and up: "publish_master st t3 (m2\<lparr>Buckets := bs, mFile := mf\<rparr>) = (None, tr')"
    by (simp_all add: UploadToStorageBucket_def split: prod.splits)
  show "m' = m\<lparr>mUnixTime := unixTime, mDateTime := dateTime,
        mCategories := map_option (categories_after ev unixTime (mRemoteDir m)) (mCategories m),
        Buckets := map (after_publish ev unixTime (mRemoteDir m)) (Buckets m),
        mFile := Some (csv_row ev [''V1'', Itoa unixTime, dateTime] @
                       categories_rows_written ev unixTime m @
                       concat (map (\<lambda>b. csv_row ev (descriptor_row b))
                         (filter (\<lambda>b. \<not> IsDeleted b)
                            (map (after_publish ev unixTime (mRemoteDir m)) (Buckets m)))))\<rparr>"
    unfolding m' using loop by (simp add: m2)
  have "tr' = t3 @ upload_calls (mPublic m) (mStorageBucketName m) (joinPath [mRemoteDir m, mFileName m])
      (contents mf)"
    using upload_file_ok [OF up [unfolded publish_master_def]] by (simp add: m2)
  then show "tr' = tr @ categories_calls ev (mPublic m) unixTime (mRemoteDir m) (mCategories m) @
        concat (map (bucket_calls (mPublic m))
          (filter (\<lambda>b. \<not> IsDeleted b \<and> IsChanged b)
             (map (after_publish ev unixTime (mRemoteDir m)) (Buckets m)))) @
        upload_calls (mPublic m) (mStorageBucketName m) (mRemoteDir m @ ''/'' @ mFileName m)
          (contents (mFile m'))"
    using loop t2 by (simp add: m' joinPath_two)
qed


lemma Itoa_17: "Itoa 17 = ''17''"
  by (simp add: Itoa_def digits_of.simps digit_char_def)

lemma demo_publish_run:
  "fst (UploadToStorageBucket ok_storage demo_env accept_all 17 ''2024-01-01'' [] publish_master_example)
     = None"
  by (simp add: UploadToStorageBucket_def publish_header_def publish_categories_def
      publish_master_example_def master_of_def Truncate_def SeekStart_def csv_write_def
      shard_changed_def shard_unchanged_def shard_deleted_changed_def bucket_of_def
      publish_changed_bucket_def Compress_def VerifyZipped_def Hash_def Bucket_Upload_def
      upload_file_def call_storage_def ok_storage_def const_storage_def publish_master_def
      checksumReadSeeker_def contents_def demo_env_def demo_records_good_log [unfolded demo_env_def, simplified]
      accept_all_def Let_def
      split: prod.splits)


lemma digit_char_in: "0 \<le> d \<Longrightarrow> d < 10 \<Longrightarrow> digit_char d \<in> set ''0123456789''"
proof -
  assume "0 \<le> d" "d < 10"
  then have "nat d < length ''0123456789''" by simp
  then show ?thesis unfolding digit_char_def by (rule nth_mem)
qed

lemma digit_char_inj:
  assumes "0 \<le> a" "a < 10" "0 \<le> b" "b < 10" "digit_char a = digit_char b"
  shows "a = b"
proof -
  have d: "distinct ''0123456789''" by simp
  have "nat a < length ''0123456789''" "nat b < length ''0123456789''"
    using assms by simp_all
  with d assms(5) have "nat a = nat b"
    unfolding digit_char_def by (simp only: nth_eq_iff_index_eq)
  with assms show ?thesis by simp
qed

lemma digits_of_digits: "0 \<le> n \<Longrightarrow> set (digits_of n) \<subseteq> set ''0123456789''"
proof (induction n rule: digits_of.induct)
  case (1 n)
  show ?case
  proof (cases "n < 10")
    case True
    then have "digits_of n = [digit_char n]" by (subst digits_of.simps) simp
    then show ?thesis using digit_char_in [OF "1.prems" True] by simp
  next
    case False
    then have eq: "digits_of n = digits_of (n div 10) @ [digit_char (n mod 10)]"
      by (subst digits_of.simps) simp
    have "0 \<le> n div 10" using "1.prems" by simp
    from "1.IH" [OF False this] digit_char_in [of "n mod 10"] show ?thesis
      unfolding eq by simp
  qed
qed

lemma digits_of_nonempty: "digits_of n \<noteq> []"
  by (subst digits_of.simps) simp

lemma digits_of_inj: "0 \<le> a \<Longrightarrow> 0 \<le> b \<Longrightarrow> digits_of a = digits_of b \<Longrightarrow> a = b"
proof (induction a arbitrary: b rule: digits_of.induct)
  case (1 a)
  show ?case
  proof (cases "a < 10")
    case True
    then have ea: "digits_of a = [digit_char a]" by (subst digits_of.simps) simp
    show ?thesis
    proof (cases "b < 10")
      case bsmall: True
      then have "digits_of b = [digit_char b]" by (subst digits_of.simps) simp
      with ea "1.prems" have "digit_char a = digit_char b" by simp
      with "1.prems" True bsmall show ?thesis by (intro digit_char_inj)
    next
      case False
      then have "digits_of b = digits_of (b div 10) @ [digit_char (b mod 10)]"
        by (subst digits_of.simps) simp
      with ea "1.prems"(3) have "digits_of (b div 10) = []" by simp
      then show ?thesis using digits_of_nonempty by blast
    qed
  next
    case False
    then have ea: "digits_of a = digits_of (a div 10) @ [digit_char (a mod 10)]"
      by (subst digits_of.simps) simp
    show ?thesis
    proof (cases "b < 10")
      case True
      then have "digits_of b = [digit_char b]" by (subst digits_of.simps) simp
      with ea "1.prems"(3) have "digits_of (a div 10) = []" by simp
      then show ?thesis using digits_of_nonempty by blast
    next
      case bbig: False
      then have eb: "digits_of b = digits_of (b div 10) @ [digit_char (b mod 10)]"
        by (subst digits_of.simps) simp
      from ea eb "1.prems"(3)
      have hi: "digits_of (a div 10) = digits_of (b div 10)"
        and lo: "digit_char (a mod 10) = digit_char (b mod 10)"
        by simp_all
      have "a div 10 = b div 10"
        using "1.prems" by (intro "1.IH" [OF False _ _ hi]) simp_all
      moreover have "a mod 10 = b mod 10"
        by (rule digit_char_inj [OF _ _ _ _ lo]) simp_all
      ultimately show ?thesis by (metis mult_div_mod_eq)
    qed
  qed
qed

lemma split_at_first:
  "xs @ c # ys = xs' @ c # ys' \<Longrightarrow> c \<notin> set xs \<Longrightarrow> c \<notin> set xs' \<Longrightarrow> xs = xs' \<and> ys = ys'"
proof (induction xs arbitrary: xs')
  case Nil
  then show ?case by (cases xs') auto
next
  case (Cons x xs)
  then show ?case by (cases xs') auto
qed

lemma stamped_name_inj:
  assumes "Itoa t @ ''-'' @ z = Itoa t' @ ''-'' @ z'"
  shows "t = t' \<and> z = z'"
proof -
  have nodash: "0 \<le> n \<Longrightarrow> CHR ''-'' \<notin> set (digits_of n)" for n
    using digits_of_digits [of n] by auto
  have pos: "0 \<le> a \<Longrightarrow> 0 \<le> b \<Longrightarrow> digits_of a @ CHR ''-'' # u = digits_of b @ CHR ''-'' # v \<Longrightarrow>
      a = b \<and> u = v" for a b u v
  proof -
    assume a: "0 \<le> a" and b: "0 \<le> b"
      and eq: "digits_of a @ CHR ''-'' # u = digits_of b @ CHR ''-'' # v"
    from split_at_first [OF eq nodash [OF a] nodash [OF b]]
    have "digits_of a = digits_of b" and "u = v" by simp_all
    with a b show ?thesis by (simp add: digits_of_inj)
  qed
  have first: "0 \<le> n \<Longrightarrow> hd (digits_of n @ CHR ''-'' # u) \<noteq> CHR ''-''" for n u
  proof -
    assume n: "0 \<le> n"
    have "hd (digits_of n @ CHR ''-'' # u) = hd (digits_of n)"
      using digits_of_nonempty by simp
    moreover have "hd (digits_of n) \<in> set (digits_of n)"
      using digits_of_nonempty by (rule hd_in_set)
    ultimately show ?thesis using nodash [OF n] by metis
  qed
  consider (nn) "t < 0" "t' < 0" | (np) "t < 0" "0 \<le> t'" | (pn) "0 \<le> t" "t' < 0"
    | (pp) "0 \<le> t" "0 \<le> t'"
    by linarith
  then show ?thesis
  proof cases
    case nn
    with assms have "digits_of (- t) @ CHR ''-'' # z = digits_of (- t') @ CHR ''-'' # z'"
      by (simp add: Itoa_def)
    with nn pos [of "- t" "- t'" z z'] show ?thesis by simp
  next
    case np
    with assms have "CHR ''-'' # digits_of (- t) @ CHR ''-'' # z = digits_of t' @ CHR ''-'' # z'"
      by (simp add: Itoa_def)
    then have "hd (digits_of t' @ CHR ''-'' # z') = CHR ''-''" by (metis list.sel(1))
    with first [OF np(2)] show ?thesis by simp
  next
    case pn
    with assms have "digits_of t @ CHR ''-'' # z = CHR ''-'' # digits_of (- t') @ CHR ''-'' # z'"
      by (simp add: Itoa_def)
    then have "hd (digits_of t @ CHR ''-'' # z) = CHR ''-''" by simp
    with first [OF pn(1)] show ?thesis by simp
  next
    case pp
    with assms have "digits_of t @ CHR ''-'' # z = digits_of t' @ CHR ''-'' # z'"
      by (simp add: Itoa_def)
    with pp pos [of t t' z z'] show ?thesis by simp
  qed
qed

text \<open>
  C7 (as amended). Let a publish succeed. Every shard that is changed and not flagged deleted
  has been compressed and hashed, has the relative path \<open>{unixTime}-{ZippedFileName}\<close> and the
  remote path \<open>{remoteDir}/{unixTime}-{ZippedFileName}\<close>, and has been uploaded under that
  path; every other shard is as it was. The storage calls of the publish are, in this order,
  those for the categories, one upload (and one make-public, if the store is public) per
  changed shard that is not deleted, and the upload of the master file under
  \<open>{remoteDir}/{fileName}\<close>; so a shard that is unchanged, or deleted, is not uploaded. The
  master file holds the header row, the categories row if categories are configured, and one
  descriptor row per shard that is not deleted, built from the shard's path and hashes as the
  publish leaves them. The remote path of a relocated shard determines the unix time and the
  file name it was made from: it is new with respect to every publish at another unix time
  and to every other file name.
\<close>

theorem publish_relocates_changed_shards:
  assumes "UploadToStorageBucket st ev Validation unixTime dateTime tr m = (None, m', tr')"
  shows
    "length (Buckets m') = length (Buckets m)
     \<and> (\<forall>i<length (Buckets m).
          (\<not> IsDeleted (Buckets m ! i) \<and> IsChanged (Buckets m ! i) \<longrightarrow>
             Buckets m' ! i = published ev unixTime (mRemoteDir m) (Buckets m ! i) \<and>
             RelativeFilePath (Buckets m' ! i) = Itoa unixTime @ ''-'' @ ZippedFileName (Buckets m ! i) \<and>
             RemoteFilePath (Buckets m' ! i) =
               mRemoteDir m @ ''/'' @ Itoa unixTime @ ''-'' @ ZippedFileName (Buckets m ! i) \<and>
             CallUpload (StorageBucketName (Buckets m ! i)) (RemoteFilePath (Buckets m' ! i))
                 (zlib_compress ev (contents (File (Buckets m ! i))))
               \<in> set (drop (length tr) tr')) \<and>
          (IsDeleted (Buckets m ! i) \<or> \<not> IsChanged (Buckets m ! i) \<longrightarrow>
             Buckets m' ! i = Buckets m ! i))
     \<and> tr' = tr @ categories_calls ev (mPublic m) unixTime (mRemoteDir m) (mCategories m) @
          concat (map (bucket_calls (mPublic m))
            (filter (\<lambda>b. \<not> IsDeleted b \<and> IsChanged b) (Buckets m'))) @
          upload_calls (mPublic m) (mStorageBucketName m) (mRemoteDir m @ ''/'' @ mFileName m)
            (contents (mFile m'))
     \<and> mFile m' = Some (csv_row ev [''V1'', Itoa unixTime, dateTime] @
          categories_rows_written ev unixTime m @
          concat (map (\<lambda>b. csv_row ev (descriptor_row b)) (filter (\<lambda>b. \<not> IsDeleted b) (Buckets m'))))
     \<and> (\<forall>i<length (Buckets m).
          \<not> IsDeleted (Buckets m ! i) \<and> IsChanged (Buckets m ! i) \<longrightarrow>
          (\<forall>t z. RemoteFilePath (Buckets m' ! i) = mRemoteDir m @ ''/'' @ Itoa t @ ''-'' @ z \<longrightarrow>
             t = unixTime \<and> z = ZippedFileName (Buckets m ! i)))"
proof -
  note ok = UploadToStorageBucket_ok [OF assms]
  let ?ap = "after_publish ev unixTime (mRemoteDir m)"
  have bs: "Buckets m' = map ?ap (Buckets m)"
    by (subst ok(1)) simp
  have mf: "mFile m' = Some (csv_row ev [''V1'', Itoa unixTime, dateTime] @
          categories_rows_written ev unixTime m @
          concat (map (\<lambda>b. csv_row ev (descriptor_row b)) (filter (\<lambda>b. \<not> IsDeleted b) (Buckets m'))))"
    unfolding bs by (subst ok(1)) simp
  have tr: "tr' = tr @ categories_calls ev (mPublic m) unixTime (mRemoteDir m) (mCategories m) @
          concat (map (bucket_calls (mPublic m))
            (filter (\<lambda>b. \<not> IsDeleted b \<and> IsChanged b) (Buckets m'))) @
          upload_calls (mPublic m) (mStorageBucketName m) (mRemoteDir m @ ''/'' @ mFileName m)
            (contents (mFile m'))"
    unfolding bs using ok(2) .
  have each: "\<forall>i<length (Buckets m).
          (\<not> IsDeleted (Buckets m ! i) \<and> IsChanged (Buckets m ! i) \<longrightarrow>
             Buckets m' ! i = published ev unixTime (mRemoteDir m) (Buckets m ! i) \<and>
             RelativeFilePath (Buckets m' ! i) = Itoa unixTime @ ''-'' @ ZippedFileName (Buckets m ! i) \<and>
             RemoteFilePath (Buckets m' ! i) =
               mRemoteDir m @ ''/'' @ Itoa unixTime @ ''-'' @ ZippedFileName (Buckets m ! i) \<and>
             CallUpload (StorageBucketName (Buckets m ! i)) (RemoteFilePath (Buckets m' ! i))
                 (zlib_compress ev (contents (File (Buckets m ! i))))
               \<in> set (drop (length tr) tr')) \<and>
          (IsDeleted (Buckets m ! i) \<or> \<not> IsChanged (Buckets m ! i) \<longrightarrow>
             Buckets m' ! i = Buckets m ! i)"
  proof (intro allI impI)
    fix i assume i: "i < length (Buckets m)"
    let ?b = "Buckets m ! i"
    have nth: "Buckets m' ! i = ?ap ?b" using i by (simp add: bs)
    show "(\<not> IsDeleted ?b \<and> IsChanged ?b \<longrightarrow>
             Buckets m' ! i = published ev unixTime (mRemoteDir m) ?b \<and>
             RelativeFilePath (Buckets m' ! i) = Itoa unixTime @ ''-'' @ ZippedFileName ?b \<and>
             RemoteFilePath (Buckets m' ! i) =
               mRemoteDir m @ ''/'' @ Itoa unixTime @ ''-'' @ ZippedFileName ?b \<and>
             CallUpload (StorageBucketName ?b) (RemoteFilePath (Buckets m' ! i))
                 (zlib_compress ev (contents (File ?b)))
               \<in> set (drop (length tr) tr')) \<and>
          (IsDeleted ?b \<or> \<not> IsChanged ?b \<longrightarrow> Buckets m' ! i = ?b)"
    proof (cases "\<not> IsDeleted ?b \<and> IsChanged ?b")
      case False
      then show ?thesis using nth by (auto simp: after_publish_def)
    next
      case True
      then have p: "Buckets m' ! i = published ev unixTime (mRemoteDir m) ?b"
        using nth by (simp add: after_publish_def)
      have "Buckets m' ! i \<in> set (Buckets m')"
        using i by (intro nth_mem) (simp add: bs)
      moreover have "\<not> IsDeleted (Buckets m' ! i) \<and> IsChanged (Buckets m' ! i)"
        using True by (simp add: nth after_publish_flags)
      ultimately have "Buckets m' ! i \<in> set (filter (\<lambda>b. \<not> IsDeleted b \<and> IsChanged b) (Buckets m'))"
        by simp
      then have "set (bucket_calls (mPublic m) (Buckets m' ! i)) \<subseteq>
          set (concat (map (bucket_calls (mPublic m))
            (filter (\<lambda>b. \<not> IsDeleted b \<and> IsChanged b) (Buckets m'))))"
        by auto
      moreover have "drop (length tr) tr' =
          categories_calls ev (mPublic m) unixTime (mRemoteDir m) (mCategories m) @
          concat (map (bucket_calls (mPublic m))
            (filter (\<lambda>b. \<not> IsDeleted b \<and> IsChanged b) (Buckets m'))) @
          upload_calls (mPublic m) (mStorageBucketName m) (mRemoteDir m @ ''/'' @ mFileName m)
            (contents (mFile m'))"
        by (subst tr) simp
      ultimately have "set (bucket_calls (mPublic m) (Buckets m' ! i)) \<subseteq> set (drop (length tr) tr')"
        by (simp only: set_append) blast
      moreover have "CallUpload (StorageBucketName ?b) (RemoteFilePath (Buckets m' ! i))
                 (zlib_compress ev (contents (File ?b))) \<in> set (bucket_calls (mPublic m) (Buckets m' ! i))"
        by (simp add: bucket_calls_def upload_calls_def p published_def contents_def)
      ultimately show ?thesis
        using True p by (auto simp: published_def)
    qed
  qed
  have len: "length (Buckets m') = length (Buckets m)" by (simp add: bs)
  have fresh: "\<forall>i<length (Buckets m).
          \<not> IsDeleted (Buckets m ! i) \<and> IsChanged (Buckets m ! i) \<longrightarrow>
          (\<forall>t z. RemoteFilePath (Buckets m' ! i) = mRemoteDir m @ ''/'' @ Itoa t @ ''-'' @ z \<longrightarrow>
             t = unixTime \<and> z = ZippedFileName (Buckets m ! i))"
  proof (intro allI impI)
    fix i t z
    assume i: "i < length (Buckets m)"
      and ch: "\<not> IsDeleted (Buckets m ! i) \<and> IsChanged (Buckets m ! i)"
      and name: "RemoteFilePath (Buckets m' ! i) = mRemoteDir m @ ''/'' @ Itoa t @ ''-'' @ z"
    have "RemoteFilePath (Buckets m' ! i) =
        mRemoteDir m @ ''/'' @ Itoa unixTime @ ''-'' @ ZippedFileName (Buckets m ! i)"
      using i ch by (simp add: bs after_publish_def published_def)
    with name have "Itoa t @ ''-'' @ z = Itoa unixTime @ ''-'' @ ZippedFileName (Buckets m ! i)"
      by simp
    then show "t = unixTime \<and> z = ZippedFileName (Buckets m ! i)"
      by (rule stamped_name_inj)
  qed
  from len each tr mf fresh show ?thesis by (intro conjI)
qed


theorem publish_relocates_changed_shards_witness:
  "fst publish_example_result = None
   \<and> Buckets publish_master_example = [shard_changed, shard_unchanged, shard_deleted_changed]
   \<and> \<not> IsDeleted shard_changed \<and> IsChanged shard_changed
   \<and> \<not> IsDeleted shard_unchanged \<and> \<not> IsChanged shard_unchanged
   \<and> IsDeleted shard_deleted_changed
   \<and> RemoteFilePath (Buckets (fst (snd publish_example_result)) ! 0) = ''remote/17-1.csv.zlib''
   \<and> CallUpload ''store'' ''remote/17-1.csv.zlib'' (CHR ''Z'' # good_log)
        \<in> set (snd (snd publish_example_result))
   \<and> Buckets (fst (snd publish_example_result)) ! 1 = shard_unchanged
   \<and> Buckets (fst (snd publish_example_result)) ! 2 = shard_deleted_changed
   \<and> snd (snd publish_example_result) =
        [CallUpload ''store'' ''remote/17-1.csv.zlib'' (CHR ''Z'' # good_log),
         CallUpload ''store'' ''remote/master.csv''
           (contents (mFile (fst (snd publish_example_result))))]"
proof -
  let ?m' = "fst (snd publish_example_result)"
  let ?tr' = "snd (snd publish_example_result)"
  have run: "UploadToStorageBucket ok_storage demo_env accept_all 17 ''2024-01-01'' []
      publish_master_example = (None, ?m', ?tr')"
    using demo_publish_run by (simp add: publish_example_result_def prod_eq_iff)
  have bs: "Buckets publish_master_example = [shard_changed, shard_unchanged, shard_deleted_changed]"
    by (simp add: publish_master_example_def master_of_def)
  have flags: "\<not> IsDeleted shard_changed \<and> IsChanged shard_changed"
    "\<not> IsDeleted shard_unchanged \<and> \<not> IsChanged shard_unchanged"
    "IsDeleted shard_deleted_changed \<and> IsChanged shard_deleted_changed"
    by (simp_all add: shard_changed_def shard_unchanged_def shard_deleted_changed_def bucket_of_def)
  have m: "mRemoteDir publish_master_example = ''remote''" "mCategories publish_master_example = None"
    "\<not> mPublic publish_master_example" "mStorageBucketName publish_master_example = ''store''"
    "mFileName publish_master_example = ''master.csv''"
    by (simp_all add: publish_master_example_def master_of_def)
  note T = publish_relocates_changed_shards [OF run]
  have each: "\<forall>i<3.
          (\<not> IsDeleted (Buckets publish_master_example ! i) \<and> IsChanged (Buckets publish_master_example ! i) \<longrightarrow>
             Buckets ?m' ! i = published demo_env 17 ''remote'' (Buckets publish_master_example ! i)) \<and>
          (IsDeleted (Buckets publish_master_example ! i) \<or> \<not> IsChanged (Buckets publish_master_example ! i) \<longrightarrow>
             Buckets ?m' ! i = Buckets publish_master_example ! i)"
    using T [THEN conjunct2, THEN conjunct1] by (simp add: bs m)
  have b0: "Buckets ?m' ! 0 = published demo_env 17 ''remote'' shard_changed"
    using each [rule_format, of 0] flags by (simp add: bs)
  have b1: "Buckets ?m' ! 1 = shard_unchanged"
    using each [rule_format, of 1] flags by (simp add: bs)
  have b2: "Buckets ?m' ! 2 = shard_deleted_changed"
    using each [rule_format, of 2] flags by (simp add: bs)
  have len: "length (Buckets ?m') = 3"
    using T [THEN conjunct1] by (simp add: bs)
  have list: "Buckets ?m' = [published demo_env 17 ''remote'' shard_changed, shard_unchanged, shard_deleted_changed]"
  proof -
    have "Buckets ?m' = map (after_publish demo_env 17 ''remote'') (Buckets publish_master_example)"
      by (subst UploadToStorageBucket_ok(1) [OF run]) (simp add: m)
    then show ?thesis by (simp add: bs after_publish_def flags)
  qed
  have p0: "RemoteFilePath (published demo_env 17 ''remote'' shard_changed) = ''remote/17-1.csv.zlib''"
    "StorageBucketName (published demo_env 17 ''remote'' shard_changed) = ''store''"
    "contents (ZippedFile (published demo_env 17 ''remote'' shard_changed)) = CHR ''Z'' # good_log"
    "\<not> IsDeleted (published demo_env 17 ''remote'' shard_changed)"
    "IsChanged (published demo_env 17 ''remote'' shard_changed)"
    by (simp_all add: published_def shard_changed_def bucket_of_def Itoa_17 demo_env_def contents_def)
  have tr: "?tr' =
        [CallUpload ''store'' ''remote/17-1.csv.zlib'' (CHR ''Z'' # good_log),
         CallUpload ''store'' ''remote/master.csv'' (contents (mFile ?m'))]"
    by (subst T [THEN conjunct2, THEN conjunct2, THEN conjunct1])
       (simp add: list m categories_calls_def bucket_calls_def upload_calls_def p0 flags)
  have up: "CallUpload ''store'' ''remote/17-1.csv.zlib'' (CHR ''Z'' # good_log) \<in> set ?tr'"
    by (subst tr) simp
  from demo_publish_run bs flags b0 p0(1) up b1 b2 tr show ?thesis
    by (simp add: publish_example_result_def)
qed

lemma republish_first_ok: "fst republish_first = None"
  by (simp add: republish_first_def UploadToStorageBucket_def publish_header_def publish_categories_def
      master_of_def Truncate_def SeekStart_def csv_write_def
      shard_changed_def bucket_of_def
      publish_changed_bucket_def Compress_def VerifyZipped_def Hash_def Bucket_Upload_def
      upload_file_def call_storage_def ok_storage_def const_storage_def publish_master_def
      checksumReadSeeker_def contents_def demo_env_def demo_records_good_log [unfolded demo_env_def, simplified]
      accept_all_def Let_def
      split: prod.splits)

lemma republish_first_run:
  "UploadToStorageBucket ok_storage demo_env accept_all 17 ''2024-01-01'' [] (master_of [shard_changed]) =
     (None, fst (snd republish_first), snd (snd republish_first))"
  using republish_first_ok by (simp add: republish_first_def prod_eq_iff)

lemma republish_first_shards:
  "Buckets (fst (snd republish_first)) = [published demo_env 17 ''remote'' shard_changed]"
proof -
  have "\<not> IsDeleted shard_changed \<and> IsChanged shard_changed"
    by (simp add: shard_changed_def bucket_of_def)
  then show ?thesis
    by (subst UploadToStorageBucket_ok(1) [OF republish_first_run])
       (simp add: master_of_def after_publish_def)
qed

lemma republish_first_master:
  "mRemoteDir (fst (snd republish_first)) = ''remote''"
  "mFile (fst (snd republish_first)) \<noteq> None"
  "mCategories (fst (snd republish_first)) = None"
  "\<not> mPublic (fst (snd republish_first))"
  "mStorageBucketName (fst (snd republish_first)) = ''store''"
  "mFileName (fst (snd republish_first)) = ''master.csv''"
  by (subst UploadToStorageBucket_ok(1) [OF republish_first_run], simp add: master_of_def)+

lemma republish_second_ok: "fst republish_second = None"
proof -
  obtain f where f: "mFile (fst (snd republish_first)) = Some f"
    using republish_first_master(2) by blast
  show ?thesis
    by (simp add: republish_second_def UploadToStorageBucket_def publish_header_def
      publish_categories_def republish_first_shards republish_first_master f
      Truncate_def SeekStart_def csv_write_def published_def
      shard_changed_def bucket_of_def
      publish_changed_bucket_def Compress_def VerifyZipped_def Hash_def Bucket_Upload_def
      upload_file_def call_storage_def ok_storage_def const_storage_def publish_master_def
      checksumReadSeeker_def contents_def demo_env_def demo_records_good_log [unfolded demo_env_def, simplified]
      accept_all_def Let_def
      split: prod.splits)
qed

lemma republish_second_run:
  "UploadToStorageBucket ok_storage demo_env accept_all 17 ''2024-01-01''
      (snd (snd republish_first)) (fst (snd republish_first)) =
     (None, fst (snd republish_second), snd (snd republish_second))"
  using republish_second_ok by (simp add: republish_second_def prod_eq_iff)

lemma published_shard_changed:
  "published demo_env 17 ''remote'' shard_changed =
     shard_changed\<lparr>ZippedFile := Some (CHR ''Z'' # good_log), UnzippedHash := good_log,
       ZippedHash := CHR ''Z'' # good_log, RelativeFilePath := ''17-1.csv.zlib'',
       RemoteFilePath := ''remote/17-1.csv.zlib''\<rparr>"
  by (simp add: published_def shard_changed_def bucket_of_def Itoa_17 demo_env_def contents_def)

lemma published_twice:
  "published demo_env 17 ''remote'' (published demo_env 17 ''remote'' shard_changed) =
     published demo_env 17 ''remote'' shard_changed"
  by (simp add: published_def shard_changed_def bucket_of_def contents_def)

lemma republish_traces:
  "snd (snd republish_first) =
     [CallUpload ''store'' ''remote/17-1.csv.zlib'' (CHR ''Z'' # good_log),
      CallUpload ''store'' ''remote/master.csv'' (contents (mFile (fst (snd republish_first))))]"
  "snd (snd republish_second) =
     snd (snd republish_first) @
     [CallUpload ''store'' ''remote/17-1.csv.zlib'' (CHR ''Z'' # good_log),
      CallUpload ''store'' ''remote/master.csv'' (contents (mFile (fst (snd republish_second))))]"
  "Buckets (fst (snd republish_second)) = [published demo_env 17 ''remote'' shard_changed]"
proof -
  have flags: "\<not> IsDeleted (published demo_env 17 ''remote'' shard_changed)"
    "IsChanged (published demo_env 17 ''remote'' shard_changed)"
    "\<not> IsDeleted shard_changed" "IsChanged shard_changed"
    by (simp_all add: published_def shard_changed_def bucket_of_def)
  have calls: "bucket_calls False (published demo_env 17 ''remote'' shard_changed) =
      [CallUpload ''store'' ''remote/17-1.csv.zlib'' (CHR ''Z'' # good_log)]"
    by (simp add: bucket_calls_def upload_calls_def published_shard_changed contents_def)
       (simp add: shard_changed_def bucket_of_def)
  show "snd (snd republish_first) =
     [CallUpload ''store'' ''remote/17-1.csv.zlib'' (CHR ''Z'' # good_log),
      CallUpload ''store'' ''remote/master.csv'' (contents (mFile (fst (snd republish_first))))]"
    by (subst UploadToStorageBucket_ok(2) [OF republish_first_run])
       (simp add: master_of_def categories_calls_def after_publish_def flags calls upload_calls_def)
  show b2: "Buckets (fst (snd republish_second)) = [published demo_env 17 ''remote'' shard_changed]"
    by (subst UploadToStorageBucket_ok(1) [OF republish_second_run])
       (simp add: republish_first_shards republish_first_master after_publish_def flags published_twice)
  show "snd (snd republish_second) =
     snd (snd republish_first) @
     [CallUpload ''store'' ''remote/17-1.csv.zlib'' (CHR ''Z'' # good_log),
      CallUpload ''store'' ''remote/master.csv'' (contents (mFile (fst (snd republish_second))))]"
    by (subst UploadToStorageBucket_ok(2) [OF republish_second_run])
       (simp add: republish_first_shards republish_first_master categories_calls_def
          after_publish_def flags published_twice calls upload_calls_def)
qed

text \<open>
  The claim as stated fails in two ways. A shard that is changed and flagged deleted is not
  uploaded and keeps its remote path, though the publish succeeds. And the name is new only
  from one unix time to the next: the changed flag is never reset, so a second publish within
  the same second uploads the shard again, under the name it already has.
\<close>

theorem publish_changed_shard_counterexample:
  "IsChanged shard_deleted_changed
   \<and> Buckets deleted_only_master = [shard_deleted_changed]
   \<and> UploadToStorageBucket ok_storage demo_env accept_all 17 ''2024-01-01'' [] deleted_only_master =
       (None,
        deleted_only_master\<lparr>mUnixTime := 17, mDateTime := ''2024-01-01'',
          mFile := Some (demo_csv_row [''V1'', ''17'', ''2024-01-01''])\<rparr>,
        [CallUpload ''store'' ''remote/master.csv'' (demo_csv_row [''V1'', ''17'', ''2024-01-01''])])
   \<and> RemoteFilePath shard_deleted_changed = ''remote/5-3.csv.zlib''
   \<and> fst republish_first = None
   \<and> map IsChanged (Buckets (fst (snd republish_first))) = [True]
   \<and> map IsDeleted (Buckets (fst (snd republish_first))) = [False]
   \<and> map RemoteFilePath (Buckets (fst (snd republish_first))) = [''remote/17-1.csv.zlib'']
   \<and> CallUpload ''store'' ''remote/17-1.csv.zlib'' (CHR ''Z'' # good_log)
        \<in> set (snd (snd republish_first))
   \<and> fst republish_second = None
   \<and> map RemoteFilePath (Buckets (fst (snd republish_second))) = [''remote/17-1.csv.zlib'']
   \<and> snd (snd republish_second) =
        snd (snd republish_first) @
        [CallUpload ''store'' ''remote/17-1.csv.zlib'' (CHR ''Z'' # good_log),
         CallUpload ''store'' ''remote/master.csv'' (contents (mFile (fst (snd republish_second))))]"
proof -
  have deleted: "IsChanged shard_deleted_changed
   \<and> Buckets deleted_only_master = [shard_deleted_changed]
   \<and> UploadToStorageBucket ok_storage demo_env accept_all 17 ''2024-01-01'' [] deleted_only_master =
       (None,
        deleted_only_master\<lparr>mUnixTime := 17, mDateTime := ''2024-01-01'',
          mFile := Some (demo_csv_row [''V1'', ''17'', ''2024-01-01''])\<rparr>,
        [CallUpload ''store'' ''remote/master.csv'' (demo_csv_row [''V1'', ''17'', ''2024-01-01''])])
   \<and> RemoteFilePath shard_deleted_changed = ''remote/5-3.csv.zlib''"
    by (simp add: UploadToStorageBucket_def publish_header_def publish_categories_def
      deleted_only_master_def master_of_def Truncate_def SeekStart_def csv_write_def
      shard_deleted_changed_def bucket_of_def upload_file_def call_storage_def ok_storage_def
      const_storage_def publish_master_def contents_def demo_env_def Itoa_17 joinPath_two Let_def)
  have first: "map IsChanged (Buckets (fst (snd republish_first))) = [True]"
    "map IsDeleted (Buckets (fst (snd republish_first))) = [False]"
    "map RemoteFilePath (Buckets (fst (snd republish_first))) = [''remote/17-1.csv.zlib'']"
    by (simp_all add: republish_first_shards published_shard_changed)
       (simp_all add: shard_changed_def bucket_of_def)
  have used: "CallUpload ''store'' ''remote/17-1.csv.zlib'' (CHR ''Z'' # good_log)
        \<in> set (snd (snd republish_first))"
    by (subst republish_traces(1)) simp
  have second: "map RemoteFilePath (Buckets (fst (snd republish_second))) = [''remote/17-1.csv.zlib'']"
    by (simp add: republish_traces(3) published_shard_changed)
  from deleted republish_first_ok first used republish_second_ok second republish_traces(2)
  show ?thesis by (intro conjI) (simp_all only:)
qed

text \<open>
  C8 (as amended). Let a publish succeed with categories configured. The snapshot file has been
  rewritten from the configured items. \<open>IsChanged\<close> on the rewritten snapshot reports whether
  its digest differs from the recorded one. If it does, the snapshot has been compressed and
  hashed, has the relative path \<open>{unixTime}-{cZippedFileName}\<close> and the remote path
  \<open>{remoteDir}/{unixTime}-{cZippedFileName}\<close>, and the first storage call of the publish is
  its upload (there is no round-trip verification of the compressed snapshot). If it does not,
  the categories keep their compressed file, path and hashes, and no storage call is made for
  them. In both cases the master file holds exactly one categories row, right after the header,
  with the path and hashes the categories have after the publish.
\<close>

theorem publish_categories_snapshot:
  assumes "UploadToStorageBucket st ev Validation unixTime dateTime tr m = (None, m', tr')"
    and "mCategories m = Some c"
  shows
    "\<exists>c'. mCategories m' = Some c'
       \<and> cFile c' = Some (concat (map (\<lambda>d.
             csv_row ev [Itoa (GetId d), GetCategory d, GetSubcategory d, GetDescription d])
           (cCategoryItems c)))
       \<and> Categories_IsChanged ev (written_categories ev c) =
             (md5_hex ev (contents (cFile c')) \<noteq> cUnzippedHash c, None)
       \<and> (md5_hex ev (contents (cFile c')) \<noteq> cUnzippedHash c \<longrightarrow>
             cZippedFile c' = Some (zlib_compress ev (contents (cFile c'))) \<and>
             cUnzippedHash c' = md5_hex ev (contents (cFile c')) \<and>
             cZippedHash c' = md5_hex ev (contents (cZippedFile c')) \<and>
             cRelativeFilePath c' = Itoa unixTime @ ''-'' @ cZippedFileName c \<and>
             cRemoteFilePath c' = mRemoteDir m @ ''/'' @ Itoa unixTime @ ''-'' @ cZippedFileName c \<and>
             tr' = tr @
               upload_calls (mPublic m) (cStorageBucketName c) (cRemoteFilePath c')
                 (contents (cZippedFile c')) @
               concat (map (bucket_calls (mPublic m))
                 (filter (\<lambda>b. \<not> IsDeleted b \<and> IsChanged b) (Buckets m'))) @
               upload_calls (mPublic m) (mStorageBucketName m) (mRemoteDir m @ ''/'' @ mFileName m)
                 (contents (mFile m')))
       \<and> (md5_hex ev (contents (cFile c')) = cUnzippedHash c \<longrightarrow>
             c' = c\<lparr>cFile := cFile c'\<rparr> \<and>
             tr' = tr @
               concat (map (bucket_calls (mPublic m))
                 (filter (\<lambda>b. \<not> IsDeleted b \<and> IsChanged b) (Buckets m'))) @
               upload_calls (mPublic m) (mStorageBucketName m) (mRemoteDir m @ ''/'' @ mFileName m)
                 (contents (mFile m')))
       \<and> mFile m' = Some (csv_row ev [''V1'', Itoa unixTime, dateTime] @
            csv_row ev [''-1'', cRelativeFilePath c', ''zlib'', cZippedHash c', cUnzippedHash c',
                        Itoa (int (length (mCategoryItems m)))] @
            concat (map (\<lambda>b. csv_row ev (descriptor_row b)) (filter (\<lambda>b. \<not> IsDeleted b) (Buckets m'))))"
proof -
  note ok = UploadToStorageBucket_ok [OF assms(1)]
  let ?c' = "categories_after ev unixTime (mRemoteDir m) c"
  let ?ser = "concat (map (\<lambda>d.
             csv_row ev [Itoa (GetId d), GetCategory d, GetSubcategory d, GetDescription d])
           (cCategoryItems c))"
  have cat: "mCategories m' = Some ?c'"
    by (subst ok(1)) (simp add: assms(2))
  have bs: "Buckets m' = map (after_publish ev unixTime (mRemoteDir m)) (Buckets m)"
    by (subst ok(1)) simp
  have snap: "cFile ?c' = Some ?ser"
    by (simp add: categories_after_def published_categories_def written_categories_def)
  have wfile: "contents (cFile (written_categories ev c)) = ?ser"
    by (simp add: written_categories_def contents_def)
  have ch: "categories_changed ev c \<longleftrightarrow> md5_hex ev (contents (cFile ?c')) \<noteq> cUnzippedHash c"
    unfolding categories_changed_def wfile snap by (simp add: contents_def)
  have isch: "Categories_IsChanged ev (written_categories ev c) =
             (md5_hex ev (contents (cFile ?c')) \<noteq> cUnzippedHash c, None)"
    by (simp add: Categories_IsChanged_written ch)
  have changed: "md5_hex ev (contents (cFile ?c')) \<noteq> cUnzippedHash c \<longrightarrow>
             cZippedFile ?c' = Some (zlib_compress ev (contents (cFile ?c'))) \<and>
             cUnzippedHash ?c' = md5_hex ev (contents (cFile ?c')) \<and>
             cZippedHash ?c' = md5_hex ev (contents (cZippedFile ?c')) \<and>
             cRelativeFilePath ?c' = Itoa unixTime @ ''-'' @ cZippedFileName c \<and>
             cRemoteFilePath ?c' = mRemoteDir m @ ''/'' @ Itoa unixTime @ ''-'' @ cZippedFileName c \<and>
             tr' = tr @
               upload_calls (mPublic m) (cStorageBucketName c) (cRemoteFilePath ?c')
                 (contents (cZippedFile ?c')) @
               concat (map (bucket_calls (mPublic m))
                 (filter (\<lambda>b. \<not> IsDeleted b \<and> IsChanged b) (Buckets m'))) @
               upload_calls (mPublic m) (mStorageBucketName m) (mRemoteDir m @ ''/'' @ mFileName m)
                 (contents (mFile m'))"
  proof
    assume "md5_hex ev (contents (cFile ?c')) \<noteq> cUnzippedHash c"
    then have c: "categories_changed ev c" by (simp add: ch)
    then have after: "?c' = published_categories ev unixTime (mRemoteDir m) c"
      by (simp add: categories_after_def)
    have "tr' = tr @
               upload_calls (mPublic m) (cStorageBucketName c) (cRemoteFilePath ?c')
                 (contents (cZippedFile ?c')) @
               concat (map (bucket_calls (mPublic m))
                 (filter (\<lambda>b. \<not> IsDeleted b \<and> IsChanged b) (Buckets m'))) @
               upload_calls (mPublic m) (mStorageBucketName m) (mRemoteDir m @ ''/'' @ mFileName m)
                 (contents (mFile m'))"
      unfolding bs after using ok(2) c by (simp add: categories_calls_def assms(2))
    then show "cZippedFile ?c' = Some (zlib_compress ev (contents (cFile ?c'))) \<and>
             cUnzippedHash ?c' = md5_hex ev (contents (cFile ?c')) \<and>
             cZippedHash ?c' = md5_hex ev (contents (cZippedFile ?c')) \<and>
             cRelativeFilePath ?c' = Itoa unixTime @ ''-'' @ cZippedFileName c \<and>
             cRemoteFilePath ?c' = mRemoteDir m @ ''/'' @ Itoa unixTime @ ''-'' @ cZippedFileName c \<and>
             tr' = tr @
               upload_calls (mPublic m) (cStorageBucketName c) (cRemoteFilePath ?c')
                 (contents (cZippedFile ?c')) @
               concat (map (bucket_calls (mPublic m))
                 (filter (\<lambda>b. \<not> IsDeleted b \<and> IsChanged b) (Buckets m'))) @
               upload_calls (mPublic m) (mStorageBucketName m) (mRemoteDir m @ ''/'' @ mFileName m)
                 (contents (mFile m'))"
      by (simp add: after published_categories_def written_categories_def contents_def)
  qed
  have same: "md5_hex ev (contents (cFile ?c')) = cUnzippedHash c \<longrightarrow>
             ?c' = c\<lparr>cFile := cFile ?c'\<rparr> \<and>
             tr' = tr @
               concat (map (bucket_calls (mPublic m))
                 (filter (\<lambda>b. \<not> IsDeleted b \<and> IsChanged b) (Buckets m'))) @
               upload_calls (mPublic m) (mStorageBucketName m) (mRemoteDir m @ ''/'' @ mFileName m)
                 (contents (mFile m'))"
  proof
    assume "md5_hex ev (contents (cFile ?c')) = cUnzippedHash c"
    then have c: "\<not> categories_changed ev c" by (simp add: ch)
    then have after: "?c' = written_categories ev c"
      by (simp add: categories_after_def)
    have "tr' = tr @
               concat (map (bucket_calls (mPublic m))
                 (filter (\<lambda>b. \<not> IsDeleted b \<and> IsChanged b) (Buckets m'))) @
               upload_calls (mPublic m) (mStorageBucketName m) (mRemoteDir m @ ''/'' @ mFileName m)
                 (contents (mFile m'))"
      unfolding bs using ok(2) c by (simp add: categories_calls_def assms(2))
    then show "?c' = c\<lparr>cFile := cFile ?c'\<rparr> \<and>
             tr' = tr @
               concat (map (bucket_calls (mPublic m))
                 (filter (\<lambda>b. \<not> IsDeleted b \<and> IsChanged b) (Buckets m'))) @
               upload_calls (mPublic m) (mStorageBucketName m) (mRemoteDir m @ ''/'' @ mFileName m)
                 (contents (mFile m'))"
      by (simp add: after written_categories_def)
  qed
  have mf: "mFile m' = Some (csv_row ev [''V1'', Itoa unixTime, dateTime] @
            csv_row ev [''-1'', cRelativeFilePath ?c', ''zlib'', cZippedHash ?c', cUnzippedHash ?c',
                        Itoa (int (length (mCategoryItems m)))] @
            concat (map (\<lambda>b. csv_row ev (descriptor_row b)) (filter (\<lambda>b. \<not> IsDeleted b) (Buckets m'))))"
    unfolding bs
    by (subst ok(1)) (simp add: categories_rows_written_def assms(2) categories_row_def)
  from cat snap isch changed same mf show ?thesis
    by (intro exI [of _ ?c'] conjI)
qed


lemma Itoa_small: "Itoa 7 = ''7''" "Itoa 1 = ''1''"
  by (simp_all add: Itoa_def digits_of.simps digit_char_def)

lemma categories_publish_run:
  "fst (categories_publish_result demo_env categories_new) = None"
  "fst (categories_publish_result demo_env categories_same) = None"
  "fst (categories_publish_result broken_codec_env categories_new) = None"
  by (simp_all add: categories_publish_result_def UploadToStorageBucket_def publish_header_def
      publish_categories_def categories_master_def master_of_def Truncate_def SeekStart_def
      csv_write_def categories_new_def categories_same_def NewCategories_def
      publish_changed_categories_def Categories_Write_def Categories_IsChanged_def
      Categories_Compress_def Categories_Hash_def Categories_Upload_def
      upload_file_def call_storage_def ok_storage_def const_storage_def publish_master_def
      checksumReadSeeker_def contents_def demo_env_def broken_codec_env_def item_example_def
      Itoa_small demo_csv_row_def strings_Join_def Let_def
      split: prod.splits)

lemma categories_examples:
  "mCategories (categories_master c) = Some c"
  "mRemoteDir (categories_master c) = ''remote''"
  "\<not> mPublic (categories_master c)"
  "mStorageBucketName (categories_master c) = ''store''"
  "mFileName (categories_master c) = ''master.csv''"
  "Buckets (categories_master c) = []"
  "mCategoryItems (categories_master c) = [item_example]"
  by (simp_all add: categories_master_def master_of_def)

lemma categories_serialised:
  "concat (map (\<lambda>d. csv_row demo_env [Itoa (GetId d), GetCategory d, GetSubcategory d, GetDescription d])
      (cCategoryItems categories_new)) = demo_csv_row [''7'', ''cat'', ''sub'', ''desc'']"
  "concat (map (\<lambda>d. csv_row demo_env [Itoa (GetId d), GetCategory d, GetSubcategory d, GetDescription d])
      (cCategoryItems categories_same)) = demo_csv_row [''7'', ''cat'', ''sub'', ''desc'']"
  by (simp_all add: categories_new_def categories_same_def NewCategories_def item_example_def
      demo_env_def Itoa_small)

lemma ex_Some_elim: "\<exists>c'. x = Some c' \<and> P c' \<Longrightarrow> x = Some a \<Longrightarrow> P a"
  by auto

theorem publish_categories_snapshot_witness:
  "fst (categories_publish_result demo_env categories_new) = None
   \<and> mCategories (categories_master categories_new) = Some categories_new
   \<and> md5_hex demo_env (demo_csv_row [''7'', ''cat'', ''sub'', ''desc'']) \<noteq> cUnzippedHash categories_new
   \<and> map_option cRemoteFilePath (mCategories (fst (snd (categories_publish_result demo_env categories_new))))
        = Some ''remote/17-categories.csv.zlib''
   \<and> snd (snd (categories_publish_result demo_env categories_new)) =
        [CallUpload ''store'' ''remote/17-categories.csv.zlib''
           (CHR ''Z'' # demo_csv_row [''7'', ''cat'', ''sub'', ''desc'']),
         CallUpload ''store'' ''remote/master.csv''
           (contents (mFile (fst (snd (categories_publish_result demo_env categories_new)))))]
   \<and> mFile (fst (snd (categories_publish_result demo_env categories_new))) =
        Some (demo_csv_row [''V1'', ''17'', ''2024-01-01''] @
              demo_csv_row [''-1'', ''17-categories.csv.zlib'', ''zlib'',
                 CHR ''Z'' # demo_csv_row [''7'', ''cat'', ''sub'', ''desc''],
                 demo_csv_row [''7'', ''cat'', ''sub'', ''desc''], ''1''])
   \<and> fst (categories_publish_result demo_env categories_same) = None
   \<and> md5_hex demo_env (demo_csv_row [''7'', ''cat'', ''sub'', ''desc'']) = cUnzippedHash categories_same
   \<and> mCategories (fst (snd (categories_publish_result demo_env categories_same))) =
        Some (categories_same\<lparr>cFile := Some (demo_csv_row [''7'', ''cat'', ''sub'', ''desc''])\<rparr>)
   \<and> snd (snd (categories_publish_result demo_env categories_same)) =
        [CallUpload ''store'' ''remote/master.csv''
           (contents (mFile (fst (snd (categories_publish_result demo_env categories_same)))))]
   \<and> mFile (fst (snd (categories_publish_result demo_env categories_same))) =
        Some (demo_csv_row [''V1'', ''17'', ''2024-01-01''] @
              demo_csv_row [''-1'', ''5-categories.csv.zlib'', ''zlib'',
                 CHR ''Z'' # demo_csv_row [''7'', ''cat'', ''sub'', ''desc''],
                 demo_csv_row [''7'', ''cat'', ''sub'', ''desc''], ''1''])"
proof -
  let ?row = "demo_csv_row [''7'', ''cat'', ''sub'', ''desc'']"
  let ?R1 = "categories_publish_result demo_env categories_new"
  let ?R2 = "categories_publish_result demo_env categories_same"
  let ?a1 = "categories_after demo_env 17 ''remote'' categories_new"
  let ?a2 = "categories_after demo_env 17 ''remote'' categories_same"
  have run1: "UploadToStorageBucket ok_storage demo_env accept_all 17 ''2024-01-01'' []
      (categories_master categories_new) = (None, fst (snd ?R1), snd (snd ?R1))"
    using categories_publish_run(1) by (simp add: categories_publish_result_def prod_eq_iff)
  have run2: "UploadToStorageBucket ok_storage demo_env accept_all 17 ''2024-01-01'' []
      (categories_master categories_same) = (None, fst (snd ?R2), snd (snd ?R2))"
    using categories_publish_run(2) by (simp add: categories_publish_result_def prod_eq_iff)
  have h1: "md5_hex demo_env ?row \<noteq> cUnzippedHash categories_new"
    by (simp add: demo_env_def categories_new_def NewCategories_def demo_csv_row_def)
  have h2: "md5_hex demo_env ?row = cUnzippedHash categories_same"
    by (simp add: demo_env_def categories_same_def NewCategories_def)
  have ch1: "categories_changed demo_env categories_new"
    unfolding categories_changed_def written_categories_def
    using h1 by (simp add: contents_def categories_serialised)
  have ch2: "\<not> categories_changed demo_env categories_same"
    unfolding categories_changed_def written_categories_def
    using h2 by (simp add: contents_def categories_serialised)
  have a1: "cFile ?a1 = Some ?row" "cZippedFile ?a1 = Some (CHR ''Z'' # ?row)"
    "cUnzippedHash ?a1 = ?row" "cZippedHash ?a1 = CHR ''Z'' # ?row"
    "cRelativeFilePath ?a1 = ''17-categories.csv.zlib''"
    "cRemoteFilePath ?a1 = ''remote/17-categories.csv.zlib''"
    "cStorageBucketName categories_new = ''store''"
    unfolding categories_after_def published_categories_def written_categories_def
    using ch1
    by (simp_all add: categories_serialised contents_def Itoa_17)
       (simp_all add: demo_env_def categories_new_def NewCategories_def)
  have a2: "?a2 = categories_same\<lparr>cFile := Some ?row\<rparr>"
    unfolding categories_after_def written_categories_def
    using ch2 by (simp add: categories_serialised)
  have a2f: "cRelativeFilePath ?a2 = ''5-categories.csv.zlib''"
    "cZippedHash ?a2 = CHR ''Z'' # ?row" "cUnzippedHash ?a2 = ?row" "cFile ?a2 = Some ?row"
    unfolding a2 by (simp_all add: categories_same_def NewCategories_def)
  have cat1: "mCategories (fst (snd ?R1)) = Some ?a1"
    by (subst UploadToStorageBucket_ok(1) [OF run1]) (simp add: categories_examples)
  have cat2: "mCategories (fst (snd ?R2)) = Some ?a2"
    by (subst UploadToStorageBucket_ok(1) [OF run2]) (simp add: categories_examples)
  have nb1: "Buckets (fst (snd ?R1)) = []"
    by (subst UploadToStorageBucket_ok(1) [OF run1]) (simp add: categories_examples)
  have nb2: "Buckets (fst (snd ?R2)) = []"
    by (subst UploadToStorageBucket_ok(1) [OF run2]) (simp add: categories_examples)
  note P1 = ex_Some_elim [OF publish_categories_snapshot [OF run1 categories_examples(1)] cat1]
  note P2 = ex_Some_elim [OF publish_categories_snapshot [OF run2 categories_examples(1)] cat2]
  have d1: "md5_hex demo_env (contents (cFile ?a1)) \<noteq> cUnzippedHash categories_new"
    using h1 by (simp add: a1 contents_def)
  have d2: "md5_hex demo_env (contents (cFile ?a2)) = cUnzippedHash categories_same"
    using h2 by (simp add: a2f contents_def)
  have t1: "snd (snd ?R1) =
        [CallUpload ''store'' ''remote/17-categories.csv.zlib'' (CHR ''Z'' # ?row),
         CallUpload ''store'' ''remote/master.csv'' (contents (mFile (fst (snd ?R1))))]"
    using P1 [THEN conjunct2, THEN conjunct2, THEN conjunct1, THEN mp, OF d1]
    by (simp add: nb1 categories_examples a1 upload_calls_def contents_def)
  have m1: "mFile (fst (snd ?R1)) =
        Some (demo_csv_row [''V1'', ''17'', ''2024-01-01''] @
              demo_csv_row [''-1'', ''17-categories.csv.zlib'', ''zlib'', CHR ''Z'' # ?row, ?row, ''1''])"
    using P1 [THEN conjunct2, THEN conjunct2, THEN conjunct2, THEN conjunct2]
    by (simp add: nb1 categories_examples a1 Itoa_17 Itoa_small) (simp add: demo_env_def)
  have t2: "snd (snd ?R2) =
        [CallUpload ''store'' ''remote/master.csv'' (contents (mFile (fst (snd ?R2))))]"
    using P2 [THEN conjunct2, THEN conjunct2, THEN conjunct2, THEN conjunct1, THEN mp, OF d2]
    by (simp add: nb2 categories_examples upload_calls_def)
  have m2: "mFile (fst (snd ?R2)) =
        Some (demo_csv_row [''V1'', ''17'', ''2024-01-01''] @
              demo_csv_row [''-1'', ''5-categories.csv.zlib'', ''zlib'', CHR ''Z'' # ?row, ?row, ''1''])"
    using P2 [THEN conjunct2, THEN conjunct2, THEN conjunct2, THEN conjunct2]
    by (simp add: nb2 categories_examples a2f Itoa_17 Itoa_small) (simp add: demo_env_def)
  have r1: "map_option cRemoteFilePath (mCategories (fst (snd ?R1))) = Some ''remote/17-categories.csv.zlib''"
    unfolding cat1 by (simp add: a1)
  have r2: "mCategories (fst (snd ?R2)) = Some (categories_same\<lparr>cFile := Some ?row\<rparr>)"
    unfolding cat2 a2 ..
  from categories_publish_run(1) categories_examples(1) [of categories_new] h1 r1 t1 m1
    categories_publish_run(2) h2 r2 t2 m2
  show ?thesis by (intro conjI)
qed


text \<open>
  The claim as stated fails: the compressed snapshot is not verified before the upload. With a
  compressor whose output cannot be decompressed, the publish still succeeds and uploads the
  snapshot, while the round trip on the uploaded bytes fails.
\<close>

theorem publish_categories_no_round_trip_counterexample:
  "fst (categories_publish_result broken_codec_env categories_new) = None
   \<and> CallUpload ''store'' ''remote/17-categories.csv.zlib'' ''garbage''
        \<in> set (snd (snd (categories_publish_result broken_codec_env categories_new)))
   \<and> map_option (claimed_round_trip broken_codec_env)
        (mCategories (fst (snd (categories_publish_result broken_codec_env categories_new))))
      = Some (Some (ZlibError ''invalid header''))"
proof -
  let ?R = "categories_publish_result broken_codec_env categories_new"
  let ?a = "categories_after broken_codec_env 17 ''remote'' categories_new"
  have run: "UploadToStorageBucket ok_storage broken_codec_env accept_all 17 ''2024-01-01'' []
      (categories_master categories_new) = (None, fst (snd ?R), snd (snd ?R))"
    using categories_publish_run(3) by (simp add: categories_publish_result_def prod_eq_iff)
  have ch: "categories_changed broken_codec_env categories_new"
    by (simp add: categories_changed_def written_categories_def contents_def broken_codec_env_def
        demo_env_def categories_new_def NewCategories_def item_example_def demo_csv_row_def)
  have a: "cZippedFile ?a = Some ''garbage''" "cRemoteFilePath ?a = ''remote/17-categories.csv.zlib''"
    "cStorageBucketName categories_new = ''store''"
    unfolding categories_after_def published_categories_def
    using ch
    by (simp_all add: Itoa_17)
       (simp_all add: broken_codec_env_def demo_env_def categories_new_def NewCategories_def)
  have cat: "mCategories (fst (snd ?R)) = Some ?a"
    by (subst UploadToStorageBucket_ok(1) [OF run]) (simp add: categories_examples)
  have "snd (snd ?R) = [] @
      categories_calls broken_codec_env False 17 ''remote'' (Some categories_new) @
      concat (map (bucket_calls False) (filter (\<lambda>b. \<not> IsDeleted b \<and> IsChanged b)
        (map (after_publish broken_codec_env 17 ''remote'') []))) @
      upload_calls False ''store'' (''remote'' @ ''/'' @ ''master.csv'') (contents (mFile (fst (snd ?R))))"
    using UploadToStorageBucket_ok(2) [OF run] by (simp add: categories_examples)
  then have up: "CallUpload ''store'' ''remote/17-categories.csv.zlib'' ''garbage'' \<in> set (snd (snd ?R))"
    using ch a [unfolded categories_after_def]
    by (simp add: categories_calls_def upload_calls_def contents_def)
  have rt: "claimed_round_trip broken_codec_env ?a = Some (ZlibError ''invalid header'')"
    by (simp add: claimed_round_trip_def a contents_def) (simp add: broken_codec_env_def demo_env_def)
  from categories_publish_run(3) up rt show ?thesis by (simp add: cat)
qed

end
